theory Spec2Isabelle
  imports Main "HOL-Library.Word" "HOL-Library.Char_ord" "HOL-Library.List_Lexorder"
begin

section \<open>Values of the host language\<close>

text \<open>
  The module system of \<^verbatim>\<open>kernel/modules/modules.ts\<close> reads JSON manifests, so the
  embedding needs the values \<^verbatim>\<open>JSON.parse\<close> can produce. Arrays and objects carry the
  flag that \<^verbatim>\<open>Object.freeze\<close> sets; an object is an association list of its own
  properties.
\<close>

text \<open>
  A string of the host language is a sequence of UTF-16 code units, each a 16-bit unsigned
  integer. Lists of code units are ordered code unit by code unit, a proper prefix first
  (\<open>List_Lexorder\<close> over the unsigned order of words): the order in which the default
  \<^verbatim>\<open>Array.prototype.sort\<close> and the operator \<^verbatim>\<open><\<close> compare strings.
\<close>

type_synonym code_unit = "16 word"

type_synonym jstring = "code_unit list"

text \<open>A string literal of the source. All literals of \<^verbatim>\<open>modules.ts\<close> and \<^verbatim>\<open>errors.ts\<close> are
  made of ASCII characters, whose code unit is their character code.\<close>

definition lit :: "string \<Rightarrow> jstring" where
  "lit s = map of_char s"

datatype jsval =
    JNull
  | JBool bool
  | JNum int
  | JStr jstring
  | JArr bool "jsval list"
  | JObj bool "(jstring \<times> jsval) list"

text \<open>A thrown value: an \<^verbatim>\<open>Error\<close> object (class name, message) or any other value.\<close>

datatype thrown = ErrorObj jstring jstring | ThrownVal jsval

text \<open>The result of a call: it returns, it throws (rejects), or its promise never settles.\<close>

datatype 'a completion = Returned 'a | Raised thrown | Pending

fun typeof :: "jsval \<Rightarrow> jstring" where
  "typeof JNull = lit ''object''"
| "typeof (JBool b) = lit ''boolean''"
| "typeof (JNum n) = lit ''number''"
| "typeof (JStr s) = lit ''string''"
| "typeof (JArr f xs) = lit ''object''"
| "typeof (JObj f ps) = lit ''object''"

fun Array_isArray :: "jsval \<Rightarrow> bool" where
  "Array_isArray (JArr f xs) = True"
| "Array_isArray v = False"

text \<open>\<^verbatim>\<open>Object.freeze\<close> marks the object it is given and nothing below it; a primitive
  is returned as it is.\<close>

fun Object_freeze :: "jsval \<Rightarrow> jsval" where
  "Object_freeze (JObj f ps) = JObj True ps"
| "Object_freeze (JArr f xs) = JArr True xs"
| "Object_freeze v = v"

fun Object_isFrozen :: "jsval \<Rightarrow> bool" where
  "Object_isFrozen (JObj f ps) = f"
| "Object_isFrozen (JArr f xs) = f"
| "Object_isFrozen v = True"

text \<open>Reading a property that may be absent: \<open>None\<close> is \<^verbatim>\<open>undefined\<close>. Only the own
  properties of an object are looked at: the pipeline reads \<^verbatim>\<open>name\<close> and
  \<^verbatim>\<open>entry\<close>, which no prototype and no array or primitive wrapper defines.\<close>

fun get_prop :: "jsval \<Rightarrow> jstring \<Rightarrow> jsval option" where
  "get_prop (JObj f ps) k = map_of ps k"
| "get_prop v k = None"

fun typeof_opt :: "jsval option \<Rightarrow> jstring" where
  "typeof_opt None = lit ''undefined''"
| "typeof_opt (Some v) = typeof v"

text \<open>\<^verbatim>\<open>!x\<close>: the values that convert to \<^verbatim>\<open>false\<close>.\<close>

fun falsy :: "jsval option \<Rightarrow> bool" where
  "falsy None = True"
| "falsy (Some JNull) = True"
| "falsy (Some (JBool b)) = (\<not> b)"
| "falsy (Some (JNum n)) = (n = 0)"
| "falsy (Some (JStr s)) = (s = [])"
| "falsy (Some (JArr f xs)) = False"
| "falsy (Some (JObj f ps)) = False"

text \<open>The string behind a value that \<^verbatim>\<open>typeof\<close> has narrowed to a string.\<close>

fun the_string :: "jsval option \<Rightarrow> jstring" where
  "the_string (Some (JStr s)) = s"
| "the_string v = []"

definition endsWith :: "jstring \<Rightarrow> jstring \<Rightarrow> bool" where
  "endsWith s suf = (length suf \<le> length s \<and> drop (length s - length suf) s = suf)"

text \<open>\<^verbatim>\<open>Map.prototype.set\<close> on a map kept as an association list in insertion order: an
  existing key keeps its place, a new key goes to the end. Own properties of an object
  behave the same way.\<close>

fun map_set :: "('k \<times> 'v) list \<Rightarrow> 'k \<Rightarrow> 'v \<Rightarrow> ('k \<times> 'v) list" where
  "map_set [] k v = [(k, v)]"
| "map_set ((k', v') # xs) k v = (if k' = k then (k, v) # xs else (k', v') # map_set xs k v)"

text \<open>A strict-mode assignment \<^verbatim>\<open>o[k] = v\<close> by a caller holding the object with the
  given flag and properties: \<open>None\<close> when the assignment throws, the properties after the
  assignment otherwise.\<close>

definition assign_prop :: "bool \<Rightarrow> (jstring \<times> jsval) list \<Rightarrow> jstring \<Rightarrow> jsval \<Rightarrow> (jstring \<times> jsval) list option" where
  "assign_prop frozen ps k v = (if frozen then None else Some (map_set ps k v))"

text \<open>A value no caller can change: every object and array reachable from it is frozen.\<close>

fun immutable :: "jsval \<Rightarrow> bool" where
  "immutable (JObj f ps) = (f \<and> list_all (\<lambda>p. immutable (snd p)) ps)"
| "immutable (JArr f xs) = (f \<and> list_all immutable xs)"
| "immutable v = True"

section \<open>Errors (errors.ts)\<close>

datatype ModuleSetupStage = Discovery | Validation | Loading | Initialization

record ModuleSetupError =
  err_name :: jstring
  err_message :: jstring
  err_module :: jstring
  err_stage :: ModuleSetupStage
  err_cause :: "thrown option"

text \<open>The double and the single quotation mark of the message templates.\<close>

definition dq :: jstring where
  "dq = [0x22]"

definition sq :: jstring where
  "sq = [0x27]"

definition ModuleSetupError :: "jstring \<Rightarrow> jstring \<Rightarrow> ModuleSetupStage \<Rightarrow> thrown option \<Rightarrow> ModuleSetupError" where
  "ModuleSetupError message module stage cause =
     \<lparr>err_name = lit ''ModuleSetupError'', err_message = message, err_module = module,
      err_stage = stage, err_cause = cause\<rparr>"

definition ModuleDiscoveryError :: "jstring \<Rightarrow> thrown option \<Rightarrow> ModuleSetupError" where
  "ModuleDiscoveryError module cause =
     (ModuleSetupError (lit ''Failed to discover module '' @ dq @ module @ dq) module Discovery cause)
       \<lparr>err_name := lit ''ModuleDiscoveryError''\<rparr>"

definition ModuleValidationError :: "jstring \<Rightarrow> jstring \<Rightarrow> thrown option \<Rightarrow> ModuleSetupError" where
  "ModuleValidationError message module cause =
     (ModuleSetupError message module Validation cause)\<lparr>err_name := lit ''ModuleValidationError''\<rparr>"

definition ManifestMissingFieldError :: "jstring \<Rightarrow> jstring \<Rightarrow> ModuleSetupError" where
  "ManifestMissingFieldError module field =
     (ModuleValidationError
        (lit ''Manifest for module '' @ dq @ module @ dq @ lit '' is missing required field '' @ dq @ field @ dq)
        module None)
       \<lparr>err_name := lit ''ManifestMissingFieldError''\<rparr>"

definition ManifestNameMismatchError :: "jstring \<Rightarrow> jstring \<Rightarrow> ModuleSetupError" where
  "ManifestNameMismatchError dirName manifestName =
     (ModuleValidationError
        (lit ''Manifest name '' @ dq @ manifestName @ dq @ lit '' does not match folder name '' @ dq @ dirName @ dq)
        dirName None)
       \<lparr>err_name := lit ''ManifestNameMismatchError''\<rparr>"

definition ManifestEntryNotFoundError :: "jstring \<Rightarrow> jstring \<Rightarrow> ModuleSetupError" where
  "ManifestEntryNotFoundError module entry =
     (ModuleValidationError
        (lit ''Manifest entry file '' @ dq @ entry @ dq @ lit '' not found for module '' @ dq @ module @ dq)
        module None)
       \<lparr>err_name := lit ''ManifestEntryNotFoundError''\<rparr>"

definition ModuleLoadError :: "jstring \<Rightarrow> thrown option \<Rightarrow> ModuleSetupError" where
  "ModuleLoadError module cause =
     (ModuleSetupError (lit ''Failed to load module '' @ dq @ module @ dq) module Loading cause)
       \<lparr>err_name := lit ''ModuleLoadError''\<rparr>"

definition EntryPointMissingInitError :: "jstring \<Rightarrow> ModuleSetupError" where
  "EntryPointMissingInitError module =
     (ModuleLoadError module None)
       \<lparr>err_message := lit ''Entry point for module '' @ dq @ module @ dq @ lit '' does not export an '' @ sq @ lit ''init'' @ sq @ lit '' function'',
        err_name := lit ''EntryPointMissingInitError''\<rparr>"

definition ModuleInitializationError :: "jstring \<Rightarrow> thrown option \<Rightarrow> ModuleSetupError" where
  "ModuleInitializationError module cause =
     (ModuleSetupError (lit ''Initialization failed for module '' @ dq @ module @ dq) module Initialization cause)
       \<lparr>err_name := lit ''ModuleInitializationError''\<rparr>"

section \<open>Module records and the state of the module system (types.ts, modules.ts)\<close>

text \<open>
  A \<^verbatim>\<open>ModuleInfo\<close> object, and equally the \<^verbatim>\<open>Partial<ModuleInfo>\<close> handed to
  \<^verbatim>\<open>setModuleInfo\<close>: a field is \<open>None\<close> when the object has no such key.
\<close>

record ModuleInfo =
  mi_name :: "jstring option"
  mi_stage :: "ModuleSetupStage option"
  mi_success :: "bool option"
  mi_error :: "ModuleSetupError option"
  mi_manifest :: "jsval option"
  mi_initTime :: "int option"

definition no_fields :: ModuleInfo where
  "no_fields = \<lparr>mi_name = None, mi_stage = None, mi_success = None, mi_error = None,
                 mi_manifest = None, mi_initTime = None\<rparr>"

definition or_else :: "'a option \<Rightarrow> 'a option \<Rightarrow> 'a option" where
  "or_else new old = (case new of None \<Rightarrow> old | Some v \<Rightarrow> Some v)"

text \<open>The object spread \<^verbatim>\<open>{ ...old, ...update }\<close>.\<close>

definition spread :: "ModuleInfo \<Rightarrow> ModuleInfo \<Rightarrow> ModuleInfo" where
  "spread old update =
     \<lparr>mi_name = or_else (mi_name update) (mi_name old),
      mi_stage = or_else (mi_stage update) (mi_stage old),
      mi_success = or_else (mi_success update) (mi_success old),
      mi_error = or_else (mi_error update) (mi_error old),
      mi_manifest = or_else (mi_manifest update) (mi_manifest old),
      mi_initTime = or_else (mi_initTime update) (mi_initTime old)\<rparr>"

text \<open>The module-level variables. A \<^verbatim>\<open>Map\<close> keeps its keys in insertion order, so it
  is an association list that \<open>map_set\<close> updates in place or extends at the end.\<close>

record state =
  modules :: "(jstring \<times> ModuleInfo) list"
  initOrder :: "jstring list"
  setupTime :: int
  isSetupComplete :: bool
  isSetupInProgress :: bool

definition initial_state :: state where
  "initial_state = \<lparr>modules = [], initOrder = [], setupTime = 0,
                     isSetupComplete = False, isSetupInProgress = False\<rparr>"

definition setModuleInfo :: "jstring \<Rightarrow> ModuleInfo \<Rightarrow> state \<Rightarrow> state" where
  "setModuleInfo name update s =
     s\<lparr>modules := map_set (modules s) name
          (spread (case map_of (modules s) name of None \<Rightarrow> no_fields | Some old \<Rightarrow> old) update)\<rparr>"

section \<open>The world outside the module system\<close>

text \<open>
  What the pipeline asks of the file system, of the module loader and of the clock is a
  parameter of the model. An initializer is given by what a call of it does; module code
  is taken not to touch the variables of the module system.
\<close>

datatype init_behaviour = InitReturns | InitThrows thrown | InitNeverSettles

datatype init_export = NoInitExport | NonFunctionInit | InitFunction init_behaviour

datatype import_result = ImportThrows thrown | ImportNeverSettles | ImportOk init_export

datatype clock_point = SetupStart | SetupEnd | InitStart jstring | InitEnd jstring

record env =
  readdir :: "thrown + (jstring \<times> bool) list"
  readFile :: "jstring \<Rightarrow> thrown + jstring"
  JSON_parse :: "jstring \<Rightarrow> thrown + jsval"
  existsSync :: "jstring \<Rightarrow> jstring \<Rightarrow> bool"
  importModule :: "jstring \<Rightarrow> jstring \<Rightarrow> import_result"
  Date_now :: "clock_point \<Rightarrow> int"

text \<open>
  \<^item> \<open>readdir\<close>: the listing of the modules directory with \<^verbatim>\<open>withFileTypes\<close>, each
    entry a name and whether it is a directory, or the error the listing rejects with;
  \<^item> \<open>readFile dir\<close>: the text of \<^verbatim>\<open>manifest.json\<close> in directory \<open>dir\<close>, or the error;
  \<^item> \<open>JSON_parse\<close>: the parser;
  \<^item> \<open>existsSync dir entry\<close>: whether the joined path exists;
  \<^item> \<open>importModule name entry\<close>: what importing the joined path gives, with the
    \<^verbatim>\<open>init\<close> export of the module;
  \<^item> \<open>Date_now\<close>: the reading of the clock at each place the code reads it.
\<close>

section \<open>The pipeline (modules.ts)\<close>

definition await_then ::
  "'a completion \<times> state \<Rightarrow> ('a \<Rightarrow> state \<Rightarrow> 'b completion \<times> state) \<Rightarrow> 'b completion \<times> state" where
  "await_then m f =
     (case m of
        (Returned x, s) \<Rightarrow> f x s
      | (Raised e, s) \<Rightarrow> (Raised e, s)
      | (Pending, s) \<Rightarrow> (Pending, s))"

subsection \<open>Discovery\<close>

text \<open>The body of the \<^verbatim>\<open>try\<close> block of \<^verbatim>\<open>discover\<close>: \<open>Inl\<close> is what the
  \<^verbatim>\<open>catch\<close> receives.\<close>

definition readManifest :: "env \<Rightarrow> jstring \<Rightarrow> thrown + jsval" where
  "readManifest env dir =
     (case readFile env dir of
        Inl error \<Rightarrow> Inl error
      | Inr manifestRaw \<Rightarrow>
          (case JSON_parse env manifestRaw of
             Inl error \<Rightarrow> Inl error
           | Inr parsed \<Rightarrow>
               (let manifest = Object_freeze parsed in
                if typeof manifest \<noteq> lit ''object'' \<or> Array_isArray manifest
                then Inl (ErrorObj (lit ''Error'') (lit ''manifest JSON must be an object''))
                else Inr manifest)))"

fun discover_loop ::
  "env \<Rightarrow> jstring list \<Rightarrow> (jstring \<times> jsval) list \<Rightarrow> state \<Rightarrow> (jstring \<times> jsval) list \<times> state" where
  "discover_loop env [] output s = (output, s)"
| "discover_loop env (dir # rest) output s =
     (case readManifest env dir of
        Inr manifest \<Rightarrow> discover_loop env rest (map_set output dir manifest) s
      | Inl error \<Rightarrow>
          discover_loop env rest output
            (setModuleInfo dir
               \<lparr>mi_name = Some dir, mi_stage = Some Discovery, mi_success = Some False,
                mi_error = Some (ModuleDiscoveryError dir (Some error)),
                mi_manifest = None, mi_initTime = None\<rparr> s))"

fun record_discovered :: "(jstring \<times> jsval) list \<Rightarrow> state \<Rightarrow> state" where
  "record_discovered [] s = s"
| "record_discovered ((name, manifest) # rest) s =
     record_discovered rest
       (setModuleInfo name
          \<lparr>mi_name = Some name, mi_stage = Some Discovery, mi_success = Some True,
           mi_error = None, mi_manifest = Some manifest, mi_initTime = None\<rparr> s)"

text \<open>The names of the subdirectories, in the order of the default \<^verbatim>\<open>sort()\<close>: ascending
  as sequences of UTF-16 code units.\<close>

definition directories :: "(jstring \<times> bool) list \<Rightarrow> jstring list" where
  "directories entries = sort (map fst (filter snd entries))"

definition discover :: "env \<Rightarrow> state \<Rightarrow> (jstring \<times> jsval) list completion \<times> state" where
  "discover env s =
     (case readdir env of
        Inl error \<Rightarrow> (Raised error, s)
      | Inr entries \<Rightarrow>
          (case discover_loop env (directories entries) [] s of
             (output, s') \<Rightarrow> (Returned output, record_discovered output s')))"

subsection \<open>Validation\<close>

definition validationError :: "env \<Rightarrow> jstring \<Rightarrow> jsval option \<Rightarrow> jsval option \<Rightarrow> ModuleSetupError option" where
  "validationError env dirName name entry =
     (if falsy name \<or> typeof_opt name \<noteq> lit ''string''
      then Some (ManifestMissingFieldError dirName (lit ''name''))
      else if falsy entry \<or> typeof_opt entry \<noteq> lit ''string''
      then Some (ManifestMissingFieldError dirName (lit ''entry''))
      else if name \<noteq> Some (JStr dirName)
      then Some (ManifestNameMismatchError dirName (the_string name))
      else if \<not> falsy entry \<and> \<not> (endsWith (the_string entry) (lit ''.ts'') \<or> endsWith (the_string entry) (lit ''.js''))
      then Some (ModuleValidationError dirName (the_string entry)
                   (Some (ThrownVal (JStr (lit ''Entrypoint must be TypeScript or JavaScript'')))))
      else if \<not> falsy entry \<and> \<not> existsSync env dirName (the_string entry)
      then Some (ManifestEntryNotFoundError dirName (the_string entry))
      else None)"

text \<open>Destructuring \<^verbatim>\<open>null\<close> throws a \<^verbatim>\<open>TypeError\<close>, before anything is recorded.\<close>

definition validate :: "env \<Rightarrow> jstring \<Rightarrow> jsval \<Rightarrow> state \<Rightarrow> bool completion \<times> state" where
  "validate env dirName manifest s =
     (if manifest = JNull
      then (Raised (ErrorObj (lit ''TypeError'') (lit ''Cannot destructure property name of null'')), s)
      else
        (case validationError env dirName (get_prop manifest (lit ''name'')) (get_prop manifest (lit ''entry'')) of
           Some error \<Rightarrow>
             (Returned False,
              setModuleInfo dirName
                \<lparr>mi_name = None, mi_stage = Some Validation, mi_success = Some False,
                 mi_error = Some error, mi_manifest = None, mi_initTime = None\<rparr> s)
         | None \<Rightarrow>
             (Returned True,
              setModuleInfo dirName
                \<lparr>mi_name = None, mi_stage = Some Validation, mi_success = Some True,
                 mi_error = None, mi_manifest = None, mi_initTime = None\<rparr> s)))"

subsection \<open>Loading\<close>

text \<open>\<^verbatim>\<open>path.join\<close> throws a \<^verbatim>\<open>TypeError\<close> on an argument that is not a string (and
  so does reading a property of \<^verbatim>\<open>null\<close>), outside the \<^verbatim>\<open>try\<close> block.\<close>

definition load :: "env \<Rightarrow> jsval \<Rightarrow> state \<Rightarrow> init_behaviour option completion \<times> state" where
  "load env manifest s =
     (let name = get_prop manifest (lit ''name''); entry = get_prop manifest (lit ''entry'') in
      if typeof_opt name \<noteq> lit ''string'' \<or> typeof_opt entry \<noteq> lit ''string''
      then (Raised (ErrorObj (lit ''TypeError'') (lit ''The path argument must be of type string'')), s)
      else
        (case importModule env (the_string name) (the_string entry) of
           ImportNeverSettles \<Rightarrow> (Pending, s)
         | ImportThrows error \<Rightarrow>
             (Returned None,
              setModuleInfo (the_string name)
                \<lparr>mi_name = None, mi_stage = Some Loading, mi_success = Some False,
                 mi_error = Some (ModuleLoadError (the_string name) (Some error)),
                 mi_manifest = None, mi_initTime = None\<rparr> s)
         | ImportOk init \<Rightarrow>
             (case init of
                InitFunction f \<Rightarrow>
                  (Returned (Some f),
                   setModuleInfo (the_string name)
                     \<lparr>mi_name = None, mi_stage = Some Loading, mi_success = Some True,
                      mi_error = None, mi_manifest = None, mi_initTime = None\<rparr> s)
              | _ \<Rightarrow>
                  (Returned None,
                   setModuleInfo (the_string name)
                     \<lparr>mi_name = None, mi_stage = Some Loading, mi_success = Some False,
                      mi_error = Some (EntryPointMissingInitError (the_string name)),
                      mi_manifest = None, mi_initTime = None\<rparr> s))))"

subsection \<open>Initialization\<close>

definition initialize :: "env \<Rightarrow> jstring \<Rightarrow> init_behaviour \<Rightarrow> state \<Rightarrow> unit completion \<times> state" where
  "initialize env name init s =
     (let startDate = Date_now env (InitStart name) in
      case init of
        InitNeverSettles \<Rightarrow> (Pending, s)
      | InitThrows error \<Rightarrow>
          (Returned (),
           setModuleInfo name
             \<lparr>mi_name = None, mi_stage = Some Initialization, mi_success = Some False,
              mi_error = Some (ModuleInitializationError name (Some error)),
              mi_manifest = None, mi_initTime = None\<rparr> s)
      | InitReturns \<Rightarrow>
          (let initTime = Date_now env (InitEnd name) - startDate in
           (Returned (),
            setModuleInfo name
              \<lparr>mi_name = None, mi_stage = Some Initialization, mi_success = Some True,
               mi_error = None, mi_manifest = None, mi_initTime = Some initTime\<rparr>
              (s\<lparr>initOrder := initOrder s @ [name]\<rparr>))))"

subsection \<open>The orchestrator\<close>

fun validate_loop ::
  "env \<Rightarrow> (jstring \<times> jsval) list \<Rightarrow> (jstring \<times> jsval) list \<Rightarrow> state
     \<Rightarrow> (jstring \<times> jsval) list completion \<times> state" where
  "validate_loop env [] moduleManifests s = (Returned moduleManifests, s)"
| "validate_loop env ((name, manifest) # rest) moduleManifests s =
     await_then (validate env name manifest s)
       (\<lambda>ok s'. validate_loop env rest
                  (if ok then map_set moduleManifests name manifest else moduleManifests) s')"

fun load_loop ::
  "env \<Rightarrow> (jstring \<times> jsval) list \<Rightarrow> (jstring \<times> init_behaviour) list \<Rightarrow> state
     \<Rightarrow> (jstring \<times> init_behaviour) list completion \<times> state" where
  "load_loop env [] moduleInits s = (Returned moduleInits, s)"
| "load_loop env ((name, manifest) # rest) moduleInits s =
     await_then (load env manifest s)
       (\<lambda>init s'. load_loop env rest
                    (case init of Some f \<Rightarrow> map_set moduleInits name f | None \<Rightarrow> moduleInits) s')"

fun init_loop :: "env \<Rightarrow> (jstring \<times> init_behaviour) list \<Rightarrow> state \<Rightarrow> unit completion \<times> state" where
  "init_loop env [] s = (Returned (), s)"
| "init_loop env ((name, init) # rest) s =
     await_then (initialize env name init s) (\<lambda>u s'. init_loop env rest s')"

definition setup_modules :: "env \<Rightarrow> state \<Rightarrow> unit completion \<times> state" where
  "setup_modules env s =
     (if isSetupComplete s \<or> isSetupInProgress s then (Returned (), s)
      else
        (let startDate = Date_now env SetupStart in
         await_then (discover env (s\<lparr>isSetupInProgress := True\<rparr>)) (\<lambda>discovered s1.
         await_then (validate_loop env discovered [] s1) (\<lambda>moduleManifests s2.
         await_then (load_loop env moduleManifests [] s2) (\<lambda>moduleInits s3.
         await_then (init_loop env moduleInits s3) (\<lambda>u s4.
           (Returned (),
            s4\<lparr>setupTime := Date_now env SetupEnd - startDate,
               isSetupInProgress := False, isSetupComplete := True\<rparr>)))))))"

subsection \<open>Reporting\<close>

definition is_true :: "bool option \<Rightarrow> bool" where
  "is_true b = (b = Some True)"

definition getManifests :: "state \<Rightarrow> jsval option list" where
  "getManifests s =
     map mi_manifest
       (filter (\<lambda>m. is_true (mi_success m) \<and> mi_stage m = Some Initialization)
          (map snd (modules s)))"

record ModuleSystemDiagnostics =
  discovered :: nat
  validated :: nat
  loaded :: nat
  initialized :: nat
  failed :: nat
  reportSetupTime :: int
  moduleDetails :: "ModuleInfo list"
  errors :: "ModuleSetupError option list"

definition getReport :: "state \<Rightarrow> ModuleSystemDiagnostics" where
  "getReport s =
     (let moduleInfo = map snd (modules s) in
      \<lparr>discovered = length moduleInfo,
       validated = length (filter (\<lambda>m.
           (mi_stage m = Some Validation \<and> is_true (mi_success m)) \<or>
           mi_stage m = Some Loading \<or>
           mi_stage m = Some Initialization) moduleInfo),
       loaded = length (filter (\<lambda>m.
           (mi_stage m = Some Loading \<and> is_true (mi_success m)) \<or>
           mi_stage m = Some Initialization) moduleInfo),
       initialized = length (filter (\<lambda>m.
           mi_stage m = Some Initialization \<and> is_true (mi_success m)) moduleInfo),
       failed = length (filter (\<lambda>m. \<not> is_true (mi_success m)) moduleInfo),
       reportSetupTime = setupTime s,
       moduleDetails = map snd (modules s),
       errors = map mi_error (filter (\<lambda>m. \<not> is_true (mi_success m)) moduleInfo)\<rparr>)"

definition getLoadOrder :: "state \<Rightarrow> jstring list" where
  "getLoadOrder s = initOrder s"

definition isModuleSetUp :: "state \<Rightarrow> jstring \<Rightarrow> bool" where
  "isModuleSetUp s moduleName =
     (case map_of (modules s) moduleName of
        None \<Rightarrow> False
      | Some m \<Rightarrow> is_true (mi_success m))"

definition getModuleInfo :: "state \<Rightarrow> jstring \<Rightarrow> ModuleInfo option" where
  "getModuleInfo s moduleName = map_of (modules s) moduleName"

section \<open>What a run does to one module\<close>

text \<open>
  The rest of the theory states results about the pipeline. The definitions of this section
  name the pieces those statements are made of: the records the stages write, what each
  stage decides for a module from the environment alone, and the invariants of the
  registry.
\<close>

text \<open>\<^verbatim>\<open>modules.get(name) || {}\<close>.\<close>

definition previous :: "state \<Rightarrow> jstring \<Rightarrow> ModuleInfo" where
  "previous s n = (case map_of (modules s) n of None \<Rightarrow> no_fields | Some old \<Rightarrow> old)"

text \<open>The updates that the stages hand to \<open>setModuleInfo\<close>.\<close>

definition discovery_failure :: "jstring \<Rightarrow> thrown \<Rightarrow> ModuleInfo" where
  "discovery_failure dir error =
     \<lparr>mi_name = Some dir, mi_stage = Some Discovery, mi_success = Some False,
      mi_error = Some (ModuleDiscoveryError dir (Some error)),
      mi_manifest = None, mi_initTime = None\<rparr>"

definition discovery_success :: "jstring \<Rightarrow> jsval \<Rightarrow> ModuleInfo" where
  "discovery_success name manifest =
     \<lparr>mi_name = Some name, mi_stage = Some Discovery, mi_success = Some True,
      mi_error = None, mi_manifest = Some manifest, mi_initTime = None\<rparr>"

definition validation_update :: "env \<Rightarrow> jstring \<Rightarrow> jsval \<Rightarrow> ModuleInfo" where
  "validation_update env dirName manifest =
     (if manifest = JNull then no_fields
      else
        (case validationError env dirName (get_prop manifest (lit ''name'')) (get_prop manifest (lit ''entry'')) of
           Some error \<Rightarrow>
             \<lparr>mi_name = None, mi_stage = Some Validation, mi_success = Some False,
              mi_error = Some error, mi_manifest = None, mi_initTime = None\<rparr>
         | None \<Rightarrow>
             \<lparr>mi_name = None, mi_stage = Some Validation, mi_success = Some True,
              mi_error = None, mi_manifest = None, mi_initTime = None\<rparr>))"

definition load_update :: "env \<Rightarrow> jsval \<Rightarrow> ModuleInfo" where
  "load_update env manifest =
     (let name = the_string (get_prop manifest (lit ''name'')) in
      case importModule env name (the_string (get_prop manifest (lit ''entry''))) of
        ImportNeverSettles \<Rightarrow> no_fields
      | ImportThrows error \<Rightarrow>
          \<lparr>mi_name = None, mi_stage = Some Loading, mi_success = Some False,
           mi_error = Some (ModuleLoadError name (Some error)),
           mi_manifest = None, mi_initTime = None\<rparr>
      | ImportOk init \<Rightarrow>
          (case init of
             InitFunction f \<Rightarrow>
               \<lparr>mi_name = None, mi_stage = Some Loading, mi_success = Some True,
                mi_error = None, mi_manifest = None, mi_initTime = None\<rparr>
           | _ \<Rightarrow>
               \<lparr>mi_name = None, mi_stage = Some Loading, mi_success = Some False,
                mi_error = Some (EntryPointMissingInitError name),
                mi_manifest = None, mi_initTime = None\<rparr>))"

definition init_update :: "env \<Rightarrow> jstring \<Rightarrow> init_behaviour \<Rightarrow> ModuleInfo" where
  "init_update env name init =
     (case init of
        InitNeverSettles \<Rightarrow> no_fields
      | InitThrows error \<Rightarrow>
          \<lparr>mi_name = None, mi_stage = Some Initialization, mi_success = Some False,
           mi_error = Some (ModuleInitializationError name (Some error)),
           mi_manifest = None, mi_initTime = None\<rparr>
      | InitReturns \<Rightarrow>
          \<lparr>mi_name = None, mi_stage = Some Initialization, mi_success = Some True,
           mi_error = None, mi_manifest = None,
           mi_initTime = Some (Date_now env (InitEnd name) - Date_now env (InitStart name))\<rparr>)"

text \<open>What the stages decide for one module, read off the environment.\<close>

fun discovered_manifests :: "env \<Rightarrow> jstring list \<Rightarrow> (jstring \<times> jsval) list" where
  "discovered_manifests env [] = []"
| "discovered_manifests env (d # ds) =
     (case readManifest env d of
        Inr m \<Rightarrow> (d, m) # discovered_manifests env ds
      | Inl e \<Rightarrow> discovered_manifests env ds)"

definition valid_manifest :: "env \<Rightarrow> jstring \<Rightarrow> jsval \<Rightarrow> bool" where
  "valid_manifest env dirName manifest =
     (manifest \<noteq> JNull \<and>
      validationError env dirName (get_prop manifest (lit ''name'')) (get_prop manifest (lit ''entry'')) = None)"

definition import_settles :: "env \<Rightarrow> jsval \<Rightarrow> bool" where
  "import_settles env manifest =
     (importModule env (the_string (get_prop manifest (lit ''name''))) (the_string (get_prop manifest (lit ''entry'')))
        \<noteq> ImportNeverSettles)"

definition init_of :: "env \<Rightarrow> jsval \<Rightarrow> init_behaviour option" where
  "init_of env manifest =
     (case importModule env (the_string (get_prop manifest (lit ''name''))) (the_string (get_prop manifest (lit ''entry''))) of
        ImportOk (InitFunction f) \<Rightarrow> Some f
      | _ \<Rightarrow> None)"

definition loaded_inits :: "env \<Rightarrow> (jstring \<times> jsval) list \<Rightarrow> (jstring \<times> init_behaviour) list" where
  "loaded_inits env xs =
     concat (map (\<lambda>(d, m). case init_of env m of Some f \<Rightarrow> [(d, f)] | None \<Rightarrow> []) xs)"

text \<open>The initializer that the orchestrator ends up calling for directory \<open>d\<close>, if any.\<close>

definition initializer :: "env \<Rightarrow> jstring \<Rightarrow> init_behaviour option" where
  "initializer env d =
     (case readManifest env d of
        Inl e \<Rightarrow> None
      | Inr m \<Rightarrow> if valid_manifest env d m then init_of env m else None)"

definition init_succeeds :: "env \<Rightarrow> jstring \<Rightarrow> bool" where
  "init_succeeds env d = (initializer env d = Some InitReturns)"

text \<open>Nothing the orchestrator awaits for directory \<open>d\<close> hangs, and its manifest is not
  \<^verbatim>\<open>null\<close>.\<close>

definition settles :: "env \<Rightarrow> jstring \<Rightarrow> bool" where
  "settles env d =
     (case readManifest env d of
        Inl e \<Rightarrow> True
      | Inr m \<Rightarrow>
          m \<noteq> JNull \<and>
          (if valid_manifest env d m
           then import_settles env m \<and> init_of env m \<noteq> Some InitNeverSettles
           else True))"

text \<open>The stages in pipeline order, whether a stage succeeds for a module (a later stage is
  only run on what the earlier ones let through), and the last stage the orchestrator
  starts for a module in a run that gets to it.\<close>

fun stage_index :: "ModuleSetupStage \<Rightarrow> nat" where
  "stage_index Discovery = 0"
| "stage_index Validation = 1"
| "stage_index Loading = 2"
| "stage_index Initialization = 3"

fun stage_succeeds :: "env \<Rightarrow> jstring \<Rightarrow> ModuleSetupStage \<Rightarrow> bool" where
  "stage_succeeds env d Discovery = (case readManifest env d of Inr m \<Rightarrow> True | Inl e \<Rightarrow> False)"
| "stage_succeeds env d Validation =
     (case readManifest env d of Inr m \<Rightarrow> valid_manifest env d m | Inl e \<Rightarrow> False)"
| "stage_succeeds env d Loading = (initializer env d \<noteq> None)"
| "stage_succeeds env d Initialization = (initializer env d = Some InitReturns)"

definition lastStageAttempted :: "env \<Rightarrow> jstring \<Rightarrow> ModuleSetupStage" where
  "lastStageAttempted env d =
     (case readManifest env d of
        Inl e \<Rightarrow> Discovery
      | Inr m \<Rightarrow>
          if \<not> valid_manifest env d m then Validation
          else (case init_of env m of None \<Rightarrow> Loading | Some f \<Rightarrow> Initialization))"

text \<open>The record of directory \<open>d\<close> once every stage that applies to it has written its
  update.\<close>

definition final_info :: "env \<Rightarrow> jstring \<Rightarrow> ModuleInfo" where
  "final_info env d =
     (case readManifest env d of
        Inl e \<Rightarrow> discovery_failure d e
      | Inr m \<Rightarrow>
          (let validated = spread (discovery_success d m) (validation_update env d m) in
           if \<not> valid_manifest env d m then validated
           else
             (let loaded = spread validated (load_update env m) in
              case init_of env m of
                None \<Rightarrow> loaded
              | Some f \<Rightarrow> spread loaded (init_update env d f))))"

text \<open>Invariants of the registry, and postconditions that hold however a call ends.\<close>

definition record_ok :: "env \<Rightarrow> jstring \<Rightarrow> ModuleInfo \<Rightarrow> bool" where
  "record_ok env d r =
     (mi_success r \<noteq> None \<and> mi_stage r \<noteq> None \<and>
      (case mi_manifest r of None \<Rightarrow> True | Some m \<Rightarrow> Object_isFrozen m) \<and>
      (mi_success r = Some True \<longrightarrow>
         (case mi_stage r of None \<Rightarrow> False | Some st \<Rightarrow> stage_succeeds env d st)))"

definition registry_ok :: "env \<Rightarrow> state \<Rightarrow> bool" where
  "registry_ok env s =
     (distinct (map fst (modules s)) \<and> list_all (\<lambda>(d, r). record_ok env d r) (modules s))"

definition gate_closed :: "state \<Rightarrow> bool" where
  "gate_closed s = (isSetupComplete s \<or> isSetupInProgress s)"

definition establishes ::
  "(state \<Rightarrow> bool) \<Rightarrow> ('a \<Rightarrow> bool) \<Rightarrow> 'a completion \<times> state \<Rightarrow> bool" where
  "establishes I R p = (I (snd p) \<and> (\<forall>x. fst p = Returned x \<longrightarrow> R x))"

definition discovered_ok :: "env \<Rightarrow> jstring \<times> jsval \<Rightarrow> bool" where
  "discovered_ok env p = (readManifest env (fst p) = Inr (snd p))"

definition validated_ok :: "env \<Rightarrow> jstring \<times> jsval \<Rightarrow> bool" where
  "validated_ok env p = (readManifest env (fst p) = Inr (snd p) \<and> valid_manifest env (fst p) (snd p))"

definition loaded_ok :: "env \<Rightarrow> jstring \<times> init_behaviour \<Rightarrow> bool" where
  "loaded_ok env p = (initializer env (fst p) = Some (snd p))"

section \<open>Byte order of names\<close>

text \<open>
  The specification orders directory names by their bytes. The bytes of a name are those
  of its UTF-8 encoding, the form in which the file system holds it: a high surrogate
  followed by a low surrogate stands for one code point above \<open>0xFFFF\<close>, every other code
  unit for the code point of its own value (a surrogate on its own is encoded like any
  other code point of three bytes).
\<close>

definition is_high_surrogate :: "code_unit \<Rightarrow> bool" where
  "is_high_surrogate u = (0xD800 \<le> u \<and> u \<le> 0xDBFF)"

definition is_low_surrogate :: "code_unit \<Rightarrow> bool" where
  "is_low_surrogate u = (0xDC00 \<le> u \<and> u \<le> 0xDFFF)"

fun code_points :: "jstring \<Rightarrow> nat list" where
  "code_points [] = []"
| "code_points [u] = [unat u]"
| "code_points (h # l # rest) =
     (if is_high_surrogate h \<and> is_low_surrogate l
      then (0x10000 + (unat h - 0xD800) * 0x400 + (unat l - 0xDC00)) # code_points rest
      else unat h # code_points (l # rest))"

definition utf8_encode :: "nat \<Rightarrow> 8 word list" where
  "utf8_encode cp =
     (if cp < 0x80 then [of_nat cp]
      else if cp < 0x800 then [of_nat (0xC0 + cp div 0x40), of_nat (0x80 + cp mod 0x40)]
      else if cp < 0x10000
      then [of_nat (0xE0 + cp div 0x1000), of_nat (0x80 + cp div 0x40 mod 0x40),
            of_nat (0x80 + cp mod 0x40)]
      else [of_nat (0xF0 + cp div 0x40000), of_nat (0x80 + cp div 0x1000 mod 0x40),
            of_nat (0x80 + cp div 0x40 mod 0x40), of_nat (0x80 + cp mod 0x40)])"

definition utf8 :: "jstring \<Rightarrow> 8 word list" where
  "utf8 s = concat (map utf8_encode (code_points s))"

text \<open>A name of ASCII characters only.\<close>

definition ascii :: "jstring \<Rightarrow> bool" where
  "ascii s = list_all (\<lambda>u. u < 0x80) s"

section \<open>Concrete environments\<close>

text \<open>
  A modules directory with three module directories and one plain file. The text of a
  manifest is abbreviated by the name of its directory; the parser maps it to the object
  \<^verbatim>\<open>{name: <directory>, entry: "index.ts"}\<close>. Directory \<open>c\<close> has no manifest, the
  initializer of \<open>a\<close> returns and the one of \<open>b\<close> throws.
\<close>

definition env_demo :: env where
  "env_demo =
     \<lparr>readdir = Inr [(lit ''b'', True), (lit ''notes.txt'', False), (lit ''a'', True), (lit ''c'', True)],
      readFile = (\<lambda>dir. if dir = lit ''c'' then Inl (ErrorObj (lit ''Error'') (lit ''ENOENT'')) else Inr dir),
      JSON_parse = (\<lambda>raw. Inr (JObj False [(lit ''name'', JStr raw), (lit ''entry'', JStr (lit ''index.ts''))])),
      existsSync = (\<lambda>dir entry. True),
      importModule = (\<lambda>name entry.
         ImportOk (InitFunction (if name = lit ''a'' then InitReturns
                                 else InitThrows (ErrorObj (lit ''Error'') (lit ''boom''))))),
      Date_now = (\<lambda>p. case p of SetupStart \<Rightarrow> 1000 | InitStart n \<Rightarrow> 1010
                               | InitEnd n \<Rightarrow> 1013 | SetupEnd \<Rightarrow> 1020)\<rparr>"

text \<open>One module directory \<open>a\<close> with a valid manifest, an entry file that exists and an
  initializer that returns.\<close>

definition env_single :: env where
  "env_single =
     \<lparr>readdir = Inr [(lit ''a'', True)],
      readFile = (\<lambda>dir. Inr (lit ''manifest of a'')),
      JSON_parse = (\<lambda>raw. Inr (JObj False [(lit ''name'', JStr (lit ''a'')), (lit ''entry'', JStr (lit ''index.ts''))])),
      existsSync = (\<lambda>dir entry. True),
      importModule = (\<lambda>name entry. ImportOk (InitFunction InitReturns)),
      Date_now = (\<lambda>p. case p of SetupStart \<Rightarrow> 1000 | InitStart n \<Rightarrow> 1010
                               | InitEnd n \<Rightarrow> 1013 | SetupEnd \<Rightarrow> 1020)\<rparr>"

text \<open>The same directory when \<^verbatim>\<open>manifest.json\<close> holds the text \<^verbatim>\<open>null\<close>.\<close>

definition env_null :: env where
  "env_null =
     env_single
       \<lparr>readFile := (\<lambda>dir. Inr (lit ''null'')),
        JSON_parse := (\<lambda>raw. if raw = lit ''null'' then Inr JNull
                              else Inl (ErrorObj (lit ''SyntaxError'') (lit ''Unexpected token'')))\<rparr>"

text \<open>No modules directory: the listing rejects.\<close>

definition env_nodir :: env where
  "env_nodir = env_single\<lparr>readdir := Inl (ErrorObj (lit ''Error'') (lit ''ENOENT: no such file or directory''))\<rparr>"

text \<open>The initializer of \<open>a\<close> awaits a promise that never settles.\<close>

definition env_hang :: env where
  "env_hang = env_single\<lparr>importModule := (\<lambda>name entry. ImportOk (InitFunction InitNeverSettles))\<rparr>"

text \<open>The manifest of \<open>a\<close> has a further field \<^verbatim>\<open>meta\<close> holding an object.\<close>

definition nested_manifest :: jsval where
  "nested_manifest =
     JObj False [(lit ''name'', JStr (lit ''a'')), (lit ''entry'', JStr (lit ''index.ts'')),
                 (lit ''meta'', JObj False [(lit ''k'', JNum 1)])]"

definition env_nested :: env where
  "env_nested = env_single\<lparr>JSON_parse := (\<lambda>raw. Inr nested_manifest)\<rparr>"

text \<open>
  Four module directories listed out of order, \<open>b\<close>, \<open>a\<close>, \<open>B\<close> and \<open>ab\<close>, each with a valid
  manifest. The initializer of \<open>ab\<close> throws, the others return.
\<close>

definition env_order :: env where
  "env_order =
     \<lparr>readdir = Inr [(lit ''b'', True), (lit ''a'', True), (lit ''B'', True), (lit ''ab'', True)],
      readFile = (\<lambda>dir. Inr dir),
      JSON_parse = (\<lambda>raw. Inr (JObj False [(lit ''name'', JStr raw), (lit ''entry'', JStr (lit ''index.ts''))])),
      existsSync = (\<lambda>dir entry. True),
      importModule = (\<lambda>name entry.
         ImportOk (InitFunction (if name = lit ''ab'' then InitThrows (ErrorObj (lit ''Error'') (lit ''boom''))
                                 else InitReturns))),
      Date_now = (\<lambda>p. case p of SetupStart \<Rightarrow> 1000 | InitStart n \<Rightarrow> 1010
                               | InitEnd n \<Rightarrow> 1013 | SetupEnd \<Rightarrow> 1020)\<rparr>"

text \<open>
  Two module directories whose names are one character each: U+FF5E (fullwidth tilde), the
  code unit \<open>0xFF5E\<close> and the bytes \<^verbatim>\<open>EF BD 9E\<close>, and U+1F600 (grinning face), the surrogate
  pair \<open>0xD83D 0xDE00\<close> and the bytes \<^verbatim>\<open>F0 9F 98 80\<close>. Both initializers return.
\<close>

definition env_astral :: env where
  "env_astral = env_order\<lparr>readdir := Inr [([0xFF5E], True), ([0xD83D, 0xDE00], True)]\<rparr>"



section \<open>Concrete states and manifests\<close>

text \<open>The states and manifests that the closed statements at the end of the theory speak
  about.\<close>

text \<open>The state in which \<^verbatim>\<open>setup\<close> calls \<^verbatim>\<open>discover\<close> when it starts from the initial
  state: nothing recorded, the in-progress flag set.\<close>

definition started :: state where
  "started = \<lparr>modules = [], initOrder = [], setupTime = 0,
               isSetupComplete = False, isSetupInProgress = True\<rparr>"

text \<open>The frozen manifest of module \<open>a\<close> in \<open>env_single\<close> and \<open>env_hang\<close>, and the one of
  directory \<open>d\<close> in \<open>env_demo\<close>.\<close>

definition manifest_a :: jsval where
  "manifest_a = JObj True [(lit ''name'', JStr (lit ''a'')), (lit ''entry'', JStr (lit ''index.ts''))]"

definition manifest_of :: "jstring \<Rightarrow> jsval" where
  "manifest_of d = JObj True [(lit ''name'', JStr d), (lit ''entry'', JStr (lit ''index.ts''))]"

text \<open>The state that a run over \<open>env_demo\<close> leaves. The failed directory \<open>c\<close> comes first:
  \<^verbatim>\<open>discover\<close> records failures inside its loop and successes after it.\<close>

definition demo_final :: state where
  "demo_final =
     \<lparr>modules =
        [(lit ''c'', discovery_failure (lit ''c'') (ErrorObj (lit ''Error'') (lit ''ENOENT''))),
         (lit ''a'',
          \<lparr>mi_name = Some (lit ''a''), mi_stage = Some Initialization, mi_success = Some True,
           mi_error = None,
           mi_manifest = Some (JObj True [(lit ''name'', JStr (lit ''a'')), (lit ''entry'', JStr (lit ''index.ts''))]),
           mi_initTime = Some 3\<rparr>),
         (lit ''b'',
          \<lparr>mi_name = Some (lit ''b''), mi_stage = Some Initialization, mi_success = Some False,
           mi_error = Some (ModuleInitializationError (lit ''b'') (Some (ErrorObj (lit ''Error'') (lit ''boom'')))),
           mi_manifest = Some (JObj True [(lit ''name'', JStr (lit ''b'')), (lit ''entry'', JStr (lit ''index.ts''))]),
           mi_initTime = None\<rparr>)],
      initOrder = [lit ''a''], setupTime = 20, isSetupComplete = True, isSetupInProgress = False\<rparr>"

text \<open>The state that a run over \<open>env_nested\<close> leaves.\<close>

definition nested_final :: state where
  "nested_final =
     \<lparr>modules =
        [(lit ''a'',
          \<lparr>mi_name = Some (lit ''a''), mi_stage = Some Initialization, mi_success = Some True,
           mi_error = None, mi_manifest = Some (Object_freeze nested_manifest),
           mi_initTime = Some 3\<rparr>)],
      initOrder = [lit ''a''], setupTime = 20, isSetupComplete = True, isSetupInProgress = False\<rparr>"

text \<open>Manifests for single calls of \<^verbatim>\<open>validate\<close>: a name that differs from the directory,
  with and without an entry, an empty name, an entry \<^verbatim>\<open>main.py\<close> under a wrong and
  under the right name, and an empty entry.\<close>

definition mismatch_manifest :: jsval where
  "mismatch_manifest = JObj True [(lit ''name'', JStr (lit ''different-name'')), (lit ''entry'', JStr (lit ''index.ts''))]"

definition no_entry_manifest :: jsval where
  "no_entry_manifest = JObj True [(lit ''name'', JStr (lit ''different-name''))]"

definition empty_name_manifest :: jsval where
  "empty_name_manifest = JObj True [(lit ''name'', JStr []), (lit ''entry'', JStr (lit ''index.ts''))]"




section \<open>Properties of the embedding\<close>

subsection \<open>String literals\<close>

lemma unat_of_char: "unat (of_char c :: code_unit) = of_char c"
proof -
  have "(of_char c :: nat) < 256" by (rule nat_of_char_less_256)
  also have "(256 :: nat) < 2 ^ LENGTH(16)" by simp
  finally have "(of_char c :: nat) < 2 ^ LENGTH(16)" .
  then have "(of_char c :: nat) mod 2 ^ LENGTH(16) = of_char c" by (rule mod_less)
  then have "unat (of_nat (of_char c) :: code_unit) = of_char c"
    by (simp only: unat_of_nat)
  then show ?thesis by (simp only: of_nat_of_char)
qed

lemma code_unit_of_char_eq_iff: "((of_char c :: code_unit) = of_char d) = (c = d)"
proof
  assume "(of_char c :: code_unit) = of_char d"
  then have "unat (of_char c :: code_unit) = unat (of_char d :: code_unit)" by simp
  then show "c = d" by (simp only: unat_of_char of_char_eq_iff)
qed simp

lemma code_unit_of_char_less_iff: "((of_char c :: code_unit) < of_char d) = (c < d)"
  by (simp only: word_less_nat_alt unat_of_char less_char_def)

lemma lit_Nil [simp]: "lit [] = []"
  by (simp add: lit_def)

lemma lit_Cons: "lit (c # s) = of_char c # lit s"
  by (simp add: lit_def)

lemma lit_append: "lit (a @ b) = lit a @ lit b"
  by (simp add: lit_def)

lemma length_lit [simp]: "length (lit s) = length s"
  by (simp add: lit_def)

lemma drop_lit [simp]: "drop n (lit s) = lit (drop n s)"
  by (simp add: lit_def drop_map)

lemma lit_eq_iff [simp]: "(lit a = lit b) = (a = b)"
proof (induction a arbitrary: b)
  case Nil
  then show ?case by (cases b) (simp_all add: lit_Cons)
next
  case (Cons c a)
  then show ?case by (cases b) (simp_all add: lit_Cons code_unit_of_char_eq_iff)
qed

lemma lit_eq_Nil_iff [simp]: "(lit a = []) = (a = [])" "([] = lit a) = (a = [])"
  by (cases a; simp add: lit_Cons)+

lemma lit_less_iff [simp]: "(lit a < lit b) = (a < b)"
proof (induction a arbitrary: b)
  case Nil
  then show ?case by (cases b) (simp_all add: lit_Cons)
next
  case (Cons c a)
  then show ?case
    by (cases b) (simp_all add: lit_Cons code_unit_of_char_eq_iff code_unit_of_char_less_iff)
qed

lemma lit_le_iff [simp]: "(lit a \<le> lit b) = (a \<le> b)"
  by (simp add: le_less)

subsection \<open>Association lists as maps\<close>

lemma map_of_map_set: "map_of (map_set xs k v) = (map_of xs)(k \<mapsto> v)"
  by (induction xs) (auto simp: fun_eq_iff)

lemma keys_map_set:
  "map fst (map_set xs k v) = (if k \<in> fst ` set xs then map fst xs else map fst xs @ [k])"
  by (induction xs) force+

lemma distinct_map_set: "distinct (map fst xs) \<Longrightarrow> distinct (map fst (map_set xs k v))"
  by (simp add: keys_map_set)

lemma map_set_fresh: "k \<notin> fst ` set xs \<Longrightarrow> map_set xs k v = xs @ [(k, v)]"
  by (induction xs) auto

lemma set_map_set: "set (map_set xs k v) \<subseteq> insert (k, v) (set xs)"
  by (induction xs) (auto split: if_splits)

lemma in_map_set: "(k, v) \<in> set (map_set xs k v)"
  by (induction xs) auto

subsection \<open>setModuleInfo\<close>

lemma setModuleInfo_fields [simp]:
  "initOrder (setModuleInfo n u s) = initOrder s"
  "setupTime (setModuleInfo n u s) = setupTime s"
  "isSetupComplete (setModuleInfo n u s) = isSetupComplete s"
  "isSetupInProgress (setModuleInfo n u s) = isSetupInProgress s"
  by (simp_all add: setModuleInfo_def)

lemma lookup_setModuleInfo:
  "map_of (modules (setModuleInfo n u s)) = (map_of (modules s))(n \<mapsto> spread (previous s n) u)"
  by (simp add: setModuleInfo_def map_of_map_set previous_def)

lemma keys_setModuleInfo:
  "fst ` set (modules (setModuleInfo n u s)) = insert n (fst ` set (modules s))"
proof -
  have "set (map fst (modules (setModuleInfo n u s))) = insert n (set (map fst (modules s)))"
    unfolding setModuleInfo_def by (auto simp: keys_map_set)
  then show ?thesis by simp
qed

lemma distinct_setModuleInfo:
  "distinct (map fst (modules s)) \<Longrightarrow> distinct (map fst (modules (setModuleInfo n u s)))"
  by (simp add: setModuleInfo_def distinct_map_set)

subsection \<open>Discovery\<close>

lemma spread_no_fields [simp]: "spread no_fields u = u"
  by (simp add: spread_def no_fields_def or_else_def split: option.splits)

lemma previous_setModuleInfo:
  "previous (setModuleInfo n u s) d = (if d = n then spread (previous s n) u else previous s d)"
  by (simp add: previous_def lookup_setModuleInfo)

lemma keys_discovered: "fst ` set (discovered_manifests env ds) \<subseteq> set ds"
  by (induction ds) (auto split: sum.splits)

lemma map_of_discovered:
  "map_of (discovered_manifests env ds) d =
     (if d \<in> set ds then (case readManifest env d of Inr m \<Rightarrow> Some m | Inl e \<Rightarrow> None) else None)"
  by (induction ds) (auto split: sum.splits)

lemma distinct_discovered: "distinct ds \<Longrightarrow> distinct (map fst (discovered_manifests env ds))"
proof (induction ds)
  case Nil
  then show ?case by simp
next
  case (Cons d ds)
  have "d \<notin> fst ` set (discovered_manifests env ds)"
    using keys_discovered[of env ds] Cons.prems by auto
  with Cons show ?case by (auto split: sum.splits)
qed

lemma discover_loop_output:
  "distinct dirs \<Longrightarrow> set dirs \<inter> fst ` set out = {} \<Longrightarrow>
   fst (discover_loop env dirs out s) = out @ discovered_manifests env dirs"
proof (induction dirs arbitrary: out s)
  case Nil
  then show ?case by simp
next
  case (Cons dir rest)
  show ?case
  proof (cases "readManifest env dir")
    case (Inl error)
    with Cons show ?thesis by simp
  next
    case (Inr manifest)
    have fresh: "dir \<notin> fst ` set out" using Cons.prems by auto
    have "set rest \<inter> fst ` set (out @ [(dir, manifest)]) = {}"
      using Cons.prems by auto
    with Cons Inr fresh show ?thesis by (simp add: map_set_fresh)
  qed
qed

lemma discover_loop_fields [simp]:
  "initOrder (snd (discover_loop env dirs out s)) = initOrder s"
  "setupTime (snd (discover_loop env dirs out s)) = setupTime s"
  "isSetupComplete (snd (discover_loop env dirs out s)) = isSetupComplete s"
  "isSetupInProgress (snd (discover_loop env dirs out s)) = isSetupInProgress s"
  by (induction dirs arbitrary: out s; simp split: sum.splits)+

lemma discover_loop_lookup:
  "distinct dirs \<Longrightarrow>
   map_of (modules (snd (discover_loop env dirs out s))) d =
     (if d \<in> set dirs
      then (case readManifest env d of
              Inl e \<Rightarrow> Some (spread (previous s d) (discovery_failure d e))
            | Inr m \<Rightarrow> map_of (modules s) d)
      else map_of (modules s) d)"
proof (induction dirs arbitrary: out s)
  case Nil
  then show ?case by simp
next
  case (Cons dir rest)
  show ?case
  proof (cases "readManifest env dir")
    case (Inl error)
    with Cons show ?thesis
      by (auto simp: lookup_setModuleInfo previous_setModuleInfo discovery_failure_def split: sum.splits)
  next
    case (Inr manifest)
    with Cons show ?thesis by (auto split: sum.splits)
  qed
qed

lemma record_discovered_fields [simp]:
  "initOrder (record_discovered out s) = initOrder s"
  "setupTime (record_discovered out s) = setupTime s"
  "isSetupComplete (record_discovered out s) = isSetupComplete s"
  "isSetupInProgress (record_discovered out s) = isSetupInProgress s"
  by (induction out s rule: record_discovered.induct; simp)+

lemma record_discovered_lookup:
  "distinct (map fst out) \<Longrightarrow>
   map_of (modules (record_discovered out s)) d =
     (case map_of out d of
        Some m \<Rightarrow> Some (spread (previous s d) (discovery_success d m))
      | None \<Rightarrow> map_of (modules s) d)"
proof (induction out s rule: record_discovered.induct)
  case (1 s)
  then show ?case by simp
next
  case (2 name manifest rest s)
  have "map_of rest name = None" using 2(2) by (simp add: map_of_eq_None_iff)
  with 2 show ?case
    by (auto simp: lookup_setModuleInfo previous_setModuleInfo discovery_success_def split: option.splits)
qed

lemma discover_Returned:
  assumes "readdir env = Inr entries" "distinct (directories entries)"
  shows "discover env s =
           (Returned (discovered_manifests env (directories entries)),
            record_discovered (discovered_manifests env (directories entries))
              (snd (discover_loop env (directories entries) [] s)))"
  using assms discover_loop_output[of "directories entries" "[]" env s]
  by (auto simp: discover_def split: prod.splits)

subsection \<open>One call of a stage\<close>

lemma validate_eq:
  "manifest \<noteq> JNull \<Longrightarrow>
   validate env dirName manifest s =
     (Returned (valid_manifest env dirName manifest),
      setModuleInfo dirName (validation_update env dirName manifest) s)"
  by (simp add: validate_def valid_manifest_def validation_update_def split: option.splits)

lemma validate_null:
  "validate env dirName JNull s =
     (Raised (ErrorObj (lit ''TypeError'') (lit ''Cannot destructure property name of null'')), s)"
  by (simp add: validate_def)

lemma valid_manifest_strings:
  assumes "valid_manifest env d m"
  shows "get_prop m (lit ''name'') = Some (JStr d)"
    and "typeof_opt (get_prop m (lit ''entry'')) = lit ''string''"
    and "typeof_opt (get_prop m (lit ''name'')) = lit ''string''"
  using assms by (auto simp: valid_manifest_def validationError_def split: if_splits)

lemma load_eq:
  assumes "valid_manifest env d m"
  shows "load env m s =
           (if import_settles env m
            then (Returned (init_of env m), setModuleInfo d (load_update env m) s)
            else (Pending, s))"
  using valid_manifest_strings[OF assms]
  by (simp add: load_def init_of_def load_update_def import_settles_def Let_def
           split: import_result.splits init_export.splits)

lemma initialize_eq:
  "initialize env name init s =
     (if init = InitNeverSettles then (Pending, s)
      else (Returned (),
            setModuleInfo name (init_update env name init)
              (if init = InitReturns then s\<lparr>initOrder := initOrder s @ [name]\<rparr> else s)))"
  by (simp add: initialize_def init_update_def Let_def split: init_behaviour.splits)

subsection \<open>The loops of a run that returns\<close>

lemma await_then_Returned [simp]: "await_then (Returned x, s) f = f x s"
  by (simp add: await_then_def)

lemma await_then_Raised [simp]: "await_then (Raised e, s) f = (Raised e, s)"
  by (simp add: await_then_def)

lemma await_then_Pending [simp]: "await_then (Pending, s) f = (Pending, s)"
  by (simp add: await_then_def)

lemma validate_loop_Returned:
  "validate_loop env xs acc s = (Returned acc', s') \<Longrightarrow> distinct (map fst xs) \<Longrightarrow>
   fst ` set xs \<inter> fst ` set acc = {} \<Longrightarrow>
     acc' = acc @ filter (\<lambda>(d, m). valid_manifest env d m) xs \<and>
     JNull \<notin> snd ` set xs \<and>
     (\<forall>d. map_of (modules s') d =
        (case map_of xs d of
           Some m \<Rightarrow> Some (spread (previous s d) (validation_update env d m))
         | None \<Rightarrow> map_of (modules s) d)) \<and>
     initOrder s' = initOrder s \<and> isSetupInProgress s' = isSetupInProgress s \<and>
     isSetupComplete s' = isSetupComplete s \<and> setupTime s' = setupTime s"
proof (induction xs arbitrary: acc s)
  case Nil
  then show ?case by simp
next
  case (Cons x rest)
  obtain name manifest where x: "x = (name, manifest)" by (cases x)
  have nonnull: "manifest \<noteq> JNull"
    using Cons.prems(1) by (auto simp: x validate_null)
  define acc2 where "acc2 = (if valid_manifest env name manifest then acc @ [(name, manifest)] else acc)"
  define s2 where "s2 = setModuleInfo name (validation_update env name manifest) s"
  have fresh: "name \<notin> fst ` set acc" using Cons.prems(3) by (auto simp: x)
  have run: "validate_loop env rest acc2 s2 = (Returned acc', s')"
    using Cons.prems(1) nonnull fresh
    by (cases "valid_manifest env name manifest")
       (simp_all add: x validate_eq acc2_def s2_def map_set_fresh)
  have d: "distinct (map fst rest)" and notin: "name \<notin> fst ` set rest"
    using Cons.prems(2) by (auto simp: x)
  have "fst ` set acc2 \<subseteq> insert name (fst ` set acc)"
    by (auto simp: acc2_def)
  moreover have "fst ` set rest \<inter> fst ` set acc = {}"
    using Cons.prems(3) by (simp add: x)
  ultimately have disj: "fst ` set rest \<inter> fst ` set acc2 = {}"
    using notin by blast
  note ih = Cons.IH[OF run d disj]
  have none: "map_of rest name = None" using notin by (simp add: map_of_eq_None_iff)
  show ?case
  proof (intro conjI allI)
    show "acc' = acc @ filter (\<lambda>(d, m). valid_manifest env d m) (x # rest)"
      using ih by (simp add: acc2_def x)
    show "JNull \<notin> snd ` set (x # rest)" using ih nonnull by (auto simp: x)
    show "map_of (modules s') d =
        (case map_of (x # rest) d of
           Some m \<Rightarrow> Some (spread (previous s d) (validation_update env d m))
         | None \<Rightarrow> map_of (modules s) d)" for d
      using ih none
      by (auto simp: x s2_def lookup_setModuleInfo previous_setModuleInfo split: option.splits)
  qed (use ih in \<open>simp_all add: s2_def\<close>)
qed

lemma load_loop_Returned:
  "load_loop env xs acc s = (Returned acc', s') \<Longrightarrow> distinct (map fst xs) \<Longrightarrow>
   fst ` set xs \<inter> fst ` set acc = {} \<Longrightarrow> \<forall>(d, m) \<in> set xs. valid_manifest env d m \<Longrightarrow>
     acc' = acc @ concat (map (\<lambda>(d, m). case init_of env m of Some f \<Rightarrow> [(d, f)] | None \<Rightarrow> []) xs) \<and>
     (\<forall>(d, m) \<in> set xs. import_settles env m) \<and>
     (\<forall>d. map_of (modules s') d =
        (case map_of xs d of
           Some m \<Rightarrow> Some (spread (previous s d) (load_update env m))
         | None \<Rightarrow> map_of (modules s) d)) \<and>
     initOrder s' = initOrder s \<and> isSetupInProgress s' = isSetupInProgress s \<and>
     isSetupComplete s' = isSetupComplete s \<and> setupTime s' = setupTime s"
proof (induction xs arbitrary: acc s)
  case Nil
  then show ?case by simp
next
  case (Cons x rest)
  obtain name manifest where x: "x = (name, manifest)" by (cases x)
  have valid: "valid_manifest env name manifest" using Cons.prems(4) by (simp add: x)
  have settles: "import_settles env manifest"
    using Cons.prems(1) by (auto simp: x load_eq[OF valid] split: if_splits)
  define acc2 where
    "acc2 = acc @ (case init_of env manifest of Some f \<Rightarrow> [(name, f)] | None \<Rightarrow> [])"
  define s2 where "s2 = setModuleInfo name (load_update env manifest) s"
  have fresh: "name \<notin> fst ` set acc" using Cons.prems(3) by (auto simp: x)
  have run: "load_loop env rest acc2 s2 = (Returned acc', s')"
    using Cons.prems(1) settles fresh
    by (simp add: x load_eq[OF valid] acc2_def s2_def map_set_fresh split: option.splits)
  have d: "distinct (map fst rest)" and notin: "name \<notin> fst ` set rest"
    using Cons.prems(2) by (auto simp: x)
  have "fst ` set acc2 \<subseteq> insert name (fst ` set acc)"
    by (auto simp: acc2_def split: option.splits)
  moreover have "fst ` set rest \<inter> fst ` set acc = {}"
    using Cons.prems(3) by (simp add: x)
  ultimately have disj: "fst ` set rest \<inter> fst ` set acc2 = {}"
    using notin by blast
  have v: "\<forall>(d, m) \<in> set rest. valid_manifest env d m" using Cons.prems(4) by simp
  note ih = Cons.IH[OF run d disj v]
  have none: "map_of rest name = None" using notin by (simp add: map_of_eq_None_iff)
  show ?case
  proof (intro conjI allI)
    show "acc' = acc @ concat (map (\<lambda>(d, m). case init_of env m of Some f \<Rightarrow> [(d, f)] | None \<Rightarrow> []) (x # rest))"
      using ih by (simp add: acc2_def x)
    show "\<forall>(d, m) \<in> set (x # rest). import_settles env m" using ih settles by (simp add: x)
    show "map_of (modules s') d =
        (case map_of (x # rest) d of
           Some m \<Rightarrow> Some (spread (previous s d) (load_update env m))
         | None \<Rightarrow> map_of (modules s) d)" for d
      using ih none
      by (auto simp: x s2_def lookup_setModuleInfo previous_setModuleInfo split: option.splits)
  qed (use ih in \<open>simp_all add: s2_def\<close>)
qed

lemma init_loop_Returned:
  "init_loop env xs s = (Returned u, s') \<Longrightarrow> distinct (map fst xs) \<Longrightarrow>
     InitNeverSettles \<notin> snd ` set xs \<and>
     (\<forall>d. map_of (modules s') d =
        (case map_of xs d of
           Some f \<Rightarrow> Some (spread (previous s d) (init_update env d f))
         | None \<Rightarrow> map_of (modules s) d)) \<and>
     initOrder s' = initOrder s @ map fst (filter (\<lambda>(d, f). f = InitReturns) xs) \<and>
     isSetupInProgress s' = isSetupInProgress s \<and>
     isSetupComplete s' = isSetupComplete s \<and> setupTime s' = setupTime s"
proof (induction xs arbitrary: s)
  case Nil
  then show ?case by simp
next
  case (Cons x rest)
  obtain name init where x: "x = (name, init)" by (cases x)
  have settles: "init \<noteq> InitNeverSettles"
    using Cons.prems(1) by (auto simp: x initialize_eq split: if_splits)
  define s1 where "s1 = (if init = InitReturns then s\<lparr>initOrder := initOrder s @ [name]\<rparr> else s)"
  define s2 where "s2 = setModuleInfo name (init_update env name init) s1"
  have run: "init_loop env rest s2 = (Returned u, s')"
    using Cons.prems(1) settles by (simp add: x initialize_eq s1_def s2_def)
  have d: "distinct (map fst rest)" and notin: "name \<notin> fst ` set rest"
    using Cons.prems(2) by (auto simp: x)
  note ih = Cons.IH[OF run d]
  have none: "map_of rest name = None" using notin by (simp add: map_of_eq_None_iff)
  have m1: "modules s1 = modules s" by (simp add: s1_def)
  have p1: "previous s1 = previous s" by (simp add: previous_def m1 fun_eq_iff)
  show ?case
  proof (intro conjI allI)
    show "InitNeverSettles \<notin> snd ` set (x # rest)" using ih settles by (auto simp: x)
    show "map_of (modules s') d =
        (case map_of (x # rest) d of
           Some f \<Rightarrow> Some (spread (previous s d) (init_update env d f))
         | None \<Rightarrow> map_of (modules s) d)" for d
      using ih none
      by (auto simp: x s2_def lookup_setModuleInfo previous_setModuleInfo m1 p1 split: option.splits)
    show "initOrder s' = initOrder s @ map fst (filter (\<lambda>(d, f). f = InitReturns) (x # rest))"
      using ih by (simp add: s2_def s1_def x)
  qed (use ih in \<open>simp_all add: s2_def s1_def\<close>)
qed

subsection \<open>A run that returns\<close>

lemma await_then_ReturnedD:
  "await_then m f = (Returned y, s') \<Longrightarrow> \<exists>x s. m = (Returned x, s) \<and> f x s = (Returned y, s')"
  by (cases m; cases "fst m") (auto simp: await_then_def)

lemma map_of_filter_keys:
  "distinct (map fst xs) \<Longrightarrow>
   map_of (filter (\<lambda>(k, v). P k v) xs) k =
     (case map_of xs k of Some v \<Rightarrow> if P k v then Some v else None | None \<Rightarrow> None)"
proof (induction xs)
  case Nil
  then show ?case by simp
next
  case (Cons x xs)
  obtain a b where x: "x = (a, b)" by (cases x)
  have "map_of xs a = None" using Cons.prems by (simp add: x map_of_eq_None_iff)
  with Cons show ?case by (auto simp: x split: option.splits)
qed

lemma keys_loaded_inits:
  "map fst (loaded_inits env xs) = map fst (filter (\<lambda>(d, m). init_of env m \<noteq> None) xs)"
  by (induction xs) (auto simp: loaded_inits_def split: option.splits)

lemma map_of_loaded_inits:
  "distinct (map fst xs) \<Longrightarrow>
   map_of (loaded_inits env xs) d = (case map_of xs d of Some m \<Rightarrow> init_of env m | None \<Rightarrow> None)"
proof (induction xs)
  case Nil
  then show ?case by (simp add: loaded_inits_def)
next
  case (Cons x xs)
  obtain a b where x: "x = (a, b)" by (cases x)
  have "map_of xs a = None" using Cons.prems by (simp add: x map_of_eq_None_iff)
  with Cons show ?case by (auto simp: x loaded_inits_def split: option.splits)
qed

lemma distinct_directories: "distinct (map fst entries) \<Longrightarrow> distinct (directories entries)"
  by (simp add: directories_def distinct_map_filter)

lemma load_order_list:
  "map fst (filter (\<lambda>(d, f). f = InitReturns)
      (loaded_inits env (filter (\<lambda>(d, m). valid_manifest env d m) (discovered_manifests env ds)))) =
   filter (init_succeeds env) ds"
  by (induction ds)
     (auto simp: loaded_inits_def init_succeeds_def initializer_def split: sum.splits option.splits)

lemma setup_Returned:
  assumes run: "setup_modules env initial_state = (Returned u, s)"
    and rd: "readdir env = Inr entries"
    and dist: "distinct (map fst entries)"
  shows "initOrder s = filter (init_succeeds env) (directories entries)"
    and "map_of (modules s) d =
           (if d \<in> set (directories entries) then Some (final_info env d) else None)"
    and "setupTime s = Date_now env SetupEnd - Date_now env SetupStart"
    and "isSetupComplete s" and "\<not> isSetupInProgress s"
    and "d \<in> set (directories entries) \<Longrightarrow> settles env d"
proof -
  define dirs where "dirs = directories entries"
  define s0 where "s0 = initial_state\<lparr>isSetupInProgress := True\<rparr>"
  define sl where "sl = snd (discover_loop env dirs [] s0)"
  define out where "out = discovered_manifests env dirs"
  define s1 where "s1 = record_discovered out sl"
  have ddirs: "distinct dirs" using dist by (simp add: dirs_def distinct_directories)
  have disc: "discover env s0 = (Returned out, s1)"
    using discover_Returned[OF rd, of s0] ddirs by (simp add: dirs_def out_def s1_def sl_def)
  have chain: "await_then (validate_loop env out [] s1) (\<lambda>moduleManifests s2.
         await_then (load_loop env moduleManifests [] s2) (\<lambda>moduleInits s3.
         await_then (init_loop env moduleInits s3) (\<lambda>u s4.
           (Returned (),
            s4\<lparr>setupTime := Date_now env SetupEnd - Date_now env SetupStart,
               isSetupInProgress := False, isSetupComplete := True\<rparr>)))) = (Returned u, s)"
    using run disc by (simp add: setup_modules_def initial_state_def s0_def Let_def)
  from await_then_ReturnedD[OF chain] obtain mm s2 where
    v: "validate_loop env out [] s1 = (Returned mm, s2)" and
    chain2: "await_then (load_loop env mm [] s2) (\<lambda>moduleInits s3.
         await_then (init_loop env moduleInits s3) (\<lambda>u s4.
           (Returned (),
            s4\<lparr>setupTime := Date_now env SetupEnd - Date_now env SetupStart,
               isSetupInProgress := False, isSetupComplete := True\<rparr>))) = (Returned u, s)"
    by blast
  from await_then_ReturnedD[OF chain2] obtain mi s3 where
    l: "load_loop env mm [] s2 = (Returned mi, s3)" and
    chain3: "await_then (init_loop env mi s3) (\<lambda>u s4.
           (Returned (),
            s4\<lparr>setupTime := Date_now env SetupEnd - Date_now env SetupStart,
               isSetupInProgress := False, isSetupComplete := True\<rparr>)) = (Returned u, s)"
    by blast
  from await_then_ReturnedD[OF chain3] obtain u4 s4 where
    i: "init_loop env mi s3 = (Returned u4, s4)" and
    fin: "s = s4\<lparr>setupTime := Date_now env SetupEnd - Date_now env SetupStart,
               isSetupInProgress := False, isSetupComplete := True\<rparr>"
    by auto
  have dout: "distinct (map fst out)" using ddirs by (simp add: out_def distinct_discovered)
  note V = validate_loop_Returned[OF v dout, simplified]
  have mm: "mm = filter (\<lambda>(d, m). valid_manifest env d m) out" using V by simp
  have dmm: "distinct (map fst mm)" using dout by (simp add: mm distinct_map_filter)
  have vmm: "\<forall>(d, m) \<in> set mm. valid_manifest env d m" by (auto simp: mm)
  note L = load_loop_Returned[OF l dmm _ vmm, simplified]
  have mi: "mi = loaded_inits env mm" using L by (simp add: loaded_inits_def)
  have dmi: "distinct (map fst mi)"
    using dmm by (simp add: mi keys_loaded_inits distinct_map_filter)
  note I = init_loop_Returned[OF i dmi]
  show "initOrder s = filter (init_succeeds env) (directories entries)"
    using I V L by (simp add: fin mi mm out_def load_order_list dirs_def s1_def sl_def s0_def initial_state_def)
  show "setupTime s = Date_now env SetupEnd - Date_now env SetupStart"
    "isSetupComplete s" "\<not> isSetupInProgress s"
    by (simp_all add: fin)
  have lk_sl: "map_of (modules sl) d =
     (if d \<in> set dirs
      then (case readManifest env d of Inl e \<Rightarrow> Some (discovery_failure d e) | Inr m \<Rightarrow> None)
      else None)"
    using discover_loop_lookup[OF ddirs, of env "[]" s0 d]
    by (simp add: sl_def s0_def initial_state_def previous_def split: sum.splits)
  have lk_out: "map_of out d =
     (if d \<in> set dirs then (case readManifest env d of Inr m \<Rightarrow> Some m | Inl e \<Rightarrow> None) else None)"
    by (simp add: out_def map_of_discovered)
  have lk_s1: "map_of (modules s1) d =
     (if d \<in> set dirs
      then (case readManifest env d of
              Inl e \<Rightarrow> Some (discovery_failure d e)
            | Inr m \<Rightarrow> Some (discovery_success d m))
      else None)"
    using record_discovered_lookup[OF dout, of sl d] lk_sl lk_out
    by (auto simp: s1_def previous_def split: sum.splits option.splits)
  have lk_mm: "map_of mm d =
     (case map_of out d of Some m \<Rightarrow> if valid_manifest env d m then Some m else None | None \<Rightarrow> None)"
    using map_of_filter_keys[OF dout, of "valid_manifest env" d] by (simp add: mm)
  have lk_mi: "map_of mi d = (case map_of mm d of Some m \<Rightarrow> init_of env m | None \<Rightarrow> None)"
    using map_of_loaded_inits[OF dmm] by (simp add: mi)
  have lk_s2: "map_of (modules s2) d =
        (case map_of out d of
           Some m \<Rightarrow> Some (spread (previous s1 d) (validation_update env d m))
         | None \<Rightarrow> map_of (modules s1) d)"
    using V by simp
  have lk_s3: "map_of (modules s3) d =
        (case map_of mm d of
           Some m \<Rightarrow> Some (spread (previous s2 d) (load_update env m))
         | None \<Rightarrow> map_of (modules s2) d)"
    using L by simp
  have lk_s4: "map_of (modules s4) d =
        (case map_of mi d of
           Some f \<Rightarrow> Some (spread (previous s3 d) (init_update env d f))
         | None \<Rightarrow> map_of (modules s3) d)"
    using I by simp
  have "map_of (modules s4) d = (if d \<in> set dirs then Some (final_info env d) else None)"
    unfolding lk_s4 lk_mi previous_def lk_s3 lk_mm lk_s2 lk_s1 lk_out
    by (simp add: final_info_def Let_def split: sum.splits option.splits)
  then show "map_of (modules s) d =
           (if d \<in> set (directories entries) then Some (final_info env d) else None)"
    by (simp add: fin dirs_def)
  show "settles env d" if "d \<in> set (directories entries)"
  proof (cases "readManifest env d")
    case (Inl e)
    then show ?thesis by (simp add: settles_def)
  next
    case (Inr m)
    have in_dirs: "d \<in> set dirs" using that by (simp add: dirs_def)
    have out: "map_of out d = Some m" using in_dirs Inr by (simp add: lk_out)
    then have "(d, m) \<in> set out" by (rule map_of_SomeD)
    then have "m \<in> snd ` set out" by force
    moreover have "JNull \<notin> snd ` set out" using V by simp
    ultimately have nonnull: "m \<noteq> JNull" by blast
    have "import_settles env m \<and> init_of env m \<noteq> Some InitNeverSettles"
      if valid: "valid_manifest env d m"
    proof
      have mm_d: "map_of mm d = Some m" using out valid by (simp add: lk_mm)
      then have "(d, m) \<in> set mm" by (rule map_of_SomeD)
      moreover have "\<forall>(d, m) \<in> set mm. import_settles env m" using L by simp
      ultimately show "import_settles env m" by blast
      show "init_of env m \<noteq> Some InitNeverSettles"
      proof
        assume "init_of env m = Some InitNeverSettles"
        then have "map_of mi d = Some InitNeverSettles" using mm_d by (simp add: lk_mi)
        then have "(d, InitNeverSettles) \<in> set mi" by (rule map_of_SomeD)
        then have "InitNeverSettles \<in> snd ` set mi" by force
        moreover have "InitNeverSettles \<notin> snd ` set mi" using I by simp
        ultimately show False by blast
      qed
    qed
    then show ?thesis using Inr nonnull by (simp add: settles_def)
  qed
qed

subsection \<open>The record a completed run leaves for a module\<close>

lemma final_info_stage:
  "settles env d \<Longrightarrow> mi_stage (final_info env d) = Some (lastStageAttempted env d)"
  by (auto simp: settles_def final_info_def lastStageAttempted_def Let_def discovery_failure_def
        discovery_success_def validation_update_def valid_manifest_def load_update_def
        init_update_def init_of_def import_settles_def spread_def or_else_def
      split: sum.splits option.splits import_result.splits init_export.splits
        init_behaviour.splits if_splits)

lemma final_info_success:
  "settles env d \<Longrightarrow> mi_success (final_info env d) = Some (init_succeeds env d)"
  by (auto simp: settles_def final_info_def init_succeeds_def initializer_def Let_def
        discovery_failure_def discovery_success_def validation_update_def valid_manifest_def
        load_update_def init_update_def init_of_def import_settles_def spread_def or_else_def
      split: sum.splits option.splits import_result.splits init_export.splits
        init_behaviour.splits if_splits)

lemma init_succeeds_last_stage:
  "init_succeeds env d \<Longrightarrow> lastStageAttempted env d = Initialization"
  by (auto simp: init_succeeds_def initializer_def lastStageAttempted_def
      split: sum.splits option.splits if_splits)

lemma stage_succeeds_mono:
  "stage_succeeds env d st \<Longrightarrow> stage_index st' \<le> stage_index st \<Longrightarrow> stage_succeeds env d st'"
  by (cases st; cases st')
     (auto simp: initializer_def split: sum.splits if_splits)

subsection \<open>Postconditions that hold however a call ends\<close>

lemma establishes_await_then:
  assumes "establishes I R m"
    and "\<And>x s. I s \<Longrightarrow> R x \<Longrightarrow> establishes I R' (f x s)"
  shows "establishes I R' (await_then m f)"
proof (cases m)
  case (Pair c s)
  then show ?thesis
    using assms by (cases c) (auto simp: establishes_def)
qed

lemma establishes_weaken:
  "establishes I R p \<Longrightarrow> (\<And>x. R x \<Longrightarrow> R' x) \<Longrightarrow> establishes I R' p"
  by (auto simp: establishes_def)

lemma validate_loop_establishes:
  assumes step: "\<And>d m s. I s \<Longrightarrow> P (d, m) \<Longrightarrow> establishes I (\<lambda>ok. ok \<longrightarrow> Q (d, m)) (validate env d m s)"
  shows "I s \<Longrightarrow> list_all P xs \<Longrightarrow> list_all Q acc \<Longrightarrow>
         establishes I (list_all Q) (validate_loop env xs acc s)"
proof (induction xs arbitrary: acc s)
  case Nil
  then show ?case by (simp add: establishes_def)
next
  case (Cons x xs)
  obtain d m where x: "x = (d, m)" by (cases x)
  have P: "P (d, m)" and Ps: "list_all P xs" using Cons.prems(2) by (simp_all add: x)
  show ?case
    unfolding x validate_loop.simps
  proof (rule establishes_await_then[OF step[OF Cons.prems(1) P]])
    fix ok s'
    assume I: "I s'" and ok: "ok \<longrightarrow> Q (d, m)"
    have "list_all Q (if ok then map_set acc d m else acc)"
      using set_map_set[of acc d m] Cons.prems(3) ok by (auto simp: list_all_iff)
    then show "establishes I (list_all Q)
        (validate_loop env xs (if ok then map_set acc d m else acc) s')"
      using Cons.IH[OF I Ps] by simp
  qed
qed

lemma load_loop_establishes:
  assumes step: "\<And>d m s. I s \<Longrightarrow> P (d, m) \<Longrightarrow>
      establishes I (\<lambda>init. \<forall>f. init = Some f \<longrightarrow> Q (d, f)) (load env m s)"
  shows "I s \<Longrightarrow> list_all P xs \<Longrightarrow> list_all Q acc \<Longrightarrow>
         establishes I (list_all Q) (load_loop env xs acc s)"
proof (induction xs arbitrary: acc s)
  case Nil
  then show ?case by (simp add: establishes_def)
next
  case (Cons x xs)
  obtain d m where x: "x = (d, m)" by (cases x)
  have P: "P (d, m)" and Ps: "list_all P xs" using Cons.prems(2) by (simp_all add: x)
  show ?case
    unfolding x load_loop.simps
  proof (rule establishes_await_then[OF step[OF Cons.prems(1) P]])
    fix init s'
    assume I: "I s'" and ok: "\<forall>f. init = Some f \<longrightarrow> Q (d, f)"
    have "list_all Q (case init of Some f \<Rightarrow> map_set acc d f | None \<Rightarrow> acc)"
    proof (cases init)
      case None
      then show ?thesis using Cons.prems(3) by simp
    next
      case (Some f)
      then show ?thesis
        using set_map_set[of acc d f] Cons.prems(3) ok by (auto simp: list_all_iff)
    qed
    then show "establishes I (list_all Q)
        (load_loop env xs (case init of Some f \<Rightarrow> map_set acc d f | None \<Rightarrow> acc) s')"
      using Cons.IH[OF I Ps] by simp
  qed
qed

lemma init_loop_establishes:
  assumes step: "\<And>d f s. I s \<Longrightarrow> P (d, f) \<Longrightarrow> establishes I (\<lambda>u. True) (initialize env d f s)"
  shows "I s \<Longrightarrow> list_all P xs \<Longrightarrow> establishes I (\<lambda>u. True) (init_loop env xs s)"
proof (induction xs arbitrary: s)
  case Nil
  then show ?case by (simp add: establishes_def)
next
  case (Cons x xs)
  obtain d f where x: "x = (d, f)" by (cases x)
  have P: "P (d, f)" and Ps: "list_all P xs" using Cons.prems(2) by (simp_all add: x)
  show ?case
    unfolding x init_loop.simps
    by (rule establishes_await_then[OF step[OF Cons.prems(1) P]]) (simp add: Cons.IH Ps)
qed

subsection \<open>The registry invariant\<close>

lemma isFrozen_freeze [simp]: "Object_isFrozen (Object_freeze v)"
  by (cases v) simp_all

lemma readManifest_frozen: "readManifest env d = Inr m \<Longrightarrow> Object_isFrozen m"
  by (auto simp: readManifest_def Let_def split: sum.splits if_splits)

lemma registry_ok_initial: "registry_ok env initial_state"
  by (simp add: registry_ok_def initial_state_def)

lemma registry_ok_fields [simp]:
  "registry_ok env (s\<lparr>initOrder := xs\<rparr>) = registry_ok env s"
  "registry_ok env (s\<lparr>isSetupInProgress := b\<rparr>) = registry_ok env s"
  "registry_ok env (s\<lparr>isSetupComplete := b\<rparr>) = registry_ok env s"
  "registry_ok env (s\<lparr>setupTime := t\<rparr>) = registry_ok env s"
  by (simp_all add: registry_ok_def)

lemma record_ok_spread:
  assumes "record_ok env d u" "old = no_fields \<or> record_ok env d old"
  shows "record_ok env d (spread old u)"
  using assms
  by (auto simp: record_ok_def spread_def or_else_def no_fields_def split: option.splits)

lemma registry_ok_setModuleInfo:
  assumes "registry_ok env s" "record_ok env n u"
  shows "registry_ok env (setModuleInfo n u s)"
proof -
  have prev: "previous s n = no_fields \<or> record_ok env n (previous s n)"
  proof (cases "map_of (modules s) n")
    case None
    then show ?thesis by (simp add: previous_def)
  next
    case (Some old)
    then have "(n, old) \<in> set (modules s)" by (rule map_of_SomeD)
    then have "record_ok env n old" using assms(1) by (auto simp: registry_ok_def list_all_iff)
    then show ?thesis by (simp add: previous_def Some)
  qed
  have new: "record_ok env n (spread (previous s n) u)" by (rule record_ok_spread[OF assms(2) prev])
  have "modules (setModuleInfo n u s) = map_set (modules s) n (spread (previous s n) u)"
    by (simp add: setModuleInfo_def previous_def)
  moreover have "list_all (\<lambda>(d, r). record_ok env d r) (map_set (modules s) n (spread (previous s n) u))"
    using set_map_set[of "modules s" n "spread (previous s n) u"] assms(1) new
    by (auto simp: registry_ok_def list_all_iff)
  ultimately show ?thesis
    using assms(1) by (simp add: registry_ok_def distinct_map_set)
qed

lemma discover_loop_manifests:
  "list_all (discovered_ok env) out \<Longrightarrow>
   list_all (discovered_ok env) (fst (discover_loop env dirs out s))"
proof (induction dirs arbitrary: out s)
  case Nil
  then show ?case by simp
next
  case (Cons dir rest)
  show ?case
  proof (cases "readManifest env dir")
    case (Inl e)
    with Cons show ?thesis by simp
  next
    case (Inr m)
    have "list_all (discovered_ok env) (map_set out dir m)"
      using set_map_set[of out dir m] Cons.prems Inr by (auto simp: list_all_iff discovered_ok_def)
    with Cons.IH Inr show ?thesis by simp
  qed
qed

lemma registry_ok_discover_loop:
  "registry_ok env s \<Longrightarrow> registry_ok env (snd (discover_loop env dirs out s))"
proof (induction dirs arbitrary: out s)
  case Nil
  then show ?case by simp
next
  case (Cons dir rest)
  show ?case
  proof (cases "readManifest env dir")
    case (Inl e)
    have "record_ok env dir (discovery_failure dir e)"
      by (simp add: record_ok_def discovery_failure_def)
    then have "registry_ok env (setModuleInfo dir (discovery_failure dir e) s)"
      using Cons.prems by (simp add: registry_ok_setModuleInfo)
    with Cons.IH Inl show ?thesis by (simp add: discovery_failure_def)
  next
    case (Inr m)
    with Cons show ?thesis by simp
  qed
qed

lemma registry_ok_record_discovered:
  "registry_ok env s \<Longrightarrow> list_all (discovered_ok env) out \<Longrightarrow>
   registry_ok env (record_discovered out s)"
proof (induction out s rule: record_discovered.induct)
  case (1 s)
  then show ?case by simp
next
  case (2 name manifest rest s)
  have rm: "readManifest env name = Inr manifest" using 2(3) by (simp add: discovered_ok_def)
  have "record_ok env name (discovery_success name manifest)"
    using rm readManifest_frozen[OF rm] by (simp add: record_ok_def discovery_success_def)
  then have "registry_ok env (setModuleInfo name (discovery_success name manifest) s)"
    using 2(2) by (simp add: registry_ok_setModuleInfo)
  with 2 show ?case by (simp add: discovery_success_def)
qed

lemma discover_establishes:
  assumes ok: "registry_ok env s"
  shows "establishes (registry_ok env) (list_all (discovered_ok env)) (discover env s)"
proof (cases "readdir env")
  case (Inl e)
  with ok show ?thesis by (simp add: discover_def establishes_def)
next
  case (Inr entries)
  obtain out s' where dl: "discover_loop env (directories entries) [] s = (out, s')"
    by (cases "discover_loop env (directories entries) [] s")
  have out: "list_all (discovered_ok env) out"
    using discover_loop_manifests[of env "[]" "directories entries" s] by (simp add: dl)
  have "registry_ok env s'"
    using registry_ok_discover_loop[OF ok, of "directories entries" "[]"] by (simp add: dl)
  then show ?thesis
    using out by (simp add: discover_def Inr dl registry_ok_record_discovered establishes_def)
qed

lemma validate_establishes:
  assumes "registry_ok env s" "discovered_ok env (d, m)"
  shows "establishes (registry_ok env) (\<lambda>ok. ok \<longrightarrow> validated_ok env (d, m)) (validate env d m s)"
proof (cases "m = JNull")
  case True
  then show ?thesis using assms by (simp add: validate_null establishes_def)
next
  case False
  have "record_ok env d (validation_update env d m)"
    using assms(2) False
    by (auto simp: record_ok_def validation_update_def valid_manifest_def discovered_ok_def
             split: option.splits)
  then show ?thesis
    using assms False
    by (simp add: validate_eq establishes_def registry_ok_setModuleInfo validated_ok_def
                  discovered_ok_def)
qed

lemma initializer_eq:
  "readManifest env d = Inr m \<Longrightarrow> valid_manifest env d m \<Longrightarrow> initializer env d = init_of env m"
  by (simp add: initializer_def)

lemma load_establishes:
  assumes "registry_ok env s" "validated_ok env (d, m)"
  shows "establishes (registry_ok env)
           (\<lambda>init. \<forall>f. init = Some f \<longrightarrow> loaded_ok env (d, f)) (load env m s)"
proof -
  have valid: "valid_manifest env d m" and rm: "readManifest env d = Inr m"
    using assms(2) by (simp_all add: validated_ok_def)
  have "record_ok env d (load_update env m)" if "import_settles env m"
    using initializer_eq[OF rm valid] that
    by (auto simp: record_ok_def load_update_def init_of_def import_settles_def Let_def
             split: import_result.splits init_export.splits)
  then show ?thesis
    using assms(1) initializer_eq[OF rm valid]
    by (simp add: load_eq[OF valid] establishes_def registry_ok_setModuleInfo loaded_ok_def)
qed

lemma initialize_establishes:
  assumes "registry_ok env s" "loaded_ok env (d, f)"
  shows "establishes (registry_ok env) (\<lambda>u. True) (initialize env d f s)"
proof -
  have "f \<noteq> InitNeverSettles \<Longrightarrow> record_ok env d (init_update env d f)"
    using assms(2) by (cases f) (auto simp: record_ok_def init_update_def loaded_ok_def)
  then show ?thesis
    using assms(1) by (simp add: initialize_eq establishes_def registry_ok_setModuleInfo)
qed

lemma setup_establishes:
  assumes "registry_ok env s"
  shows "registry_ok env (snd (setup_modules env s))"
proof (cases "isSetupComplete s \<or> isSetupInProgress s")
  case True
  then show ?thesis using assms by (simp add: setup_modules_def)
next
  case False
  let ?I = "registry_ok env"
  have d: "establishes ?I (list_all (discovered_ok env)) (discover env (s\<lparr>isSetupInProgress := True\<rparr>))"
    by (rule discover_establishes) (simp add: assms)
  have v: "establishes ?I (list_all (validated_ok env)) (validate_loop env xs [] s')"
    if "?I s'" "list_all (discovered_ok env) xs" for xs s'
    by (rule validate_loop_establishes[where P = "discovered_ok env"])
       (simp_all add: that validate_establishes)
  have l: "establishes ?I (list_all (loaded_ok env)) (load_loop env xs [] s')"
    if "?I s'" "list_all (validated_ok env) xs" for xs s'
    by (rule load_loop_establishes[where P = "validated_ok env"])
       (simp_all add: that load_establishes)
  have i: "establishes ?I (\<lambda>u. True) (init_loop env xs s')"
    if "?I s'" "list_all (loaded_ok env) xs" for xs s'
    by (rule init_loop_establishes[where P = "loaded_ok env"])
       (simp_all add: that initialize_establishes)
  have "establishes ?I (\<lambda>u. True) (setup_modules env s)"
    unfolding setup_modules_def Let_def if_not_P[OF False]
    apply (rule establishes_await_then[OF d])
    apply (rule establishes_await_then[OF v], assumption, assumption)
    apply (rule establishes_await_then[OF l], assumption, assumption)
    apply (rule establishes_await_then[OF i], assumption, assumption)
    apply (simp add: establishes_def)
    done
  then show ?thesis by (simp add: establishes_def)
qed

subsection \<open>The gate\<close>

lemma gate_closed_setModuleInfo [simp]: "gate_closed (setModuleInfo n u s) = gate_closed s"
  by (simp add: gate_closed_def)

lemma discover_fields [simp]:
  "initOrder (snd (discover env s)) = initOrder s"
  "setupTime (snd (discover env s)) = setupTime s"
  "isSetupComplete (snd (discover env s)) = isSetupComplete s"
  "isSetupInProgress (snd (discover env s)) = isSetupInProgress s"
  by (simp_all add: discover_def case_prod_beta split: sum.splits)

lemma gate_discover: "gate_closed s \<Longrightarrow> establishes gate_closed (\<lambda>x. True) (discover env s)"
  by (simp add: establishes_def gate_closed_def)

lemma gate_validate: "gate_closed s \<Longrightarrow> establishes gate_closed (\<lambda>ok. True) (validate env d m s)"
  by (auto simp: validate_def establishes_def split: option.splits)

lemma gate_load:
  "gate_closed s \<Longrightarrow> establishes gate_closed (\<lambda>init. True) (load env m s)"
  by (auto simp: load_def Let_def establishes_def split: import_result.splits init_export.splits)

lemma gate_initialize: "gate_closed s \<Longrightarrow> establishes gate_closed (\<lambda>u. True) (initialize env d f s)"
  by (auto simp: initialize_def Let_def establishes_def gate_closed_def split: init_behaviour.splits)

lemma setup_closes_gate: "gate_closed (snd (setup_modules env s))"
proof (cases "isSetupComplete s \<or> isSetupInProgress s")
  case True
  then show ?thesis by (simp add: setup_modules_def gate_closed_def)
next
  case False
  have d: "establishes gate_closed (\<lambda>x. True) (discover env (s\<lparr>isSetupInProgress := True\<rparr>))"
    by (rule gate_discover) (simp add: gate_closed_def)
  have v: "establishes gate_closed (list_all (\<lambda>p. True)) (validate_loop env xs [] s')"
    if "gate_closed s'" for xs s'
    by (rule validate_loop_establishes[where P = "\<lambda>p. True"])
       (simp_all add: that gate_validate list_all_iff)
  have l: "establishes gate_closed (list_all (\<lambda>p. True)) (load_loop env xs [] s')"
    if "gate_closed s'" for xs s'
    by (rule load_loop_establishes[where P = "\<lambda>p. True"])
       (simp_all add: that gate_load list_all_iff)
  have i: "establishes gate_closed (\<lambda>u. True) (init_loop env xs s')"
    if "gate_closed s'" for xs s'
    by (rule init_loop_establishes[where P = "\<lambda>p. True"])
       (simp_all add: that gate_initialize list_all_iff)
  have "establishes gate_closed (\<lambda>u. True) (setup_modules env s)"
    unfolding setup_modules_def Let_def if_not_P[OF False]
    apply (rule establishes_await_then[OF d])
    apply (rule establishes_await_then[OF v], assumption)
    apply (rule establishes_await_then[OF l], assumption)
    apply (rule establishes_await_then[OF i], assumption)
    apply (simp add: establishes_def gate_closed_def)
    done
  then show ?thesis by (simp add: establishes_def)
qed

subsection \<open>When a run returns\<close>

lemma in_discovered:
  "(d, m) \<in> set (discovered_manifests env ds) \<Longrightarrow> d \<in> set ds \<and> readManifest env d = Inr m"
  by (induction ds) (auto split: sum.splits)

lemma in_loaded_inits:
  "(d, f) \<in> set (loaded_inits env xs) \<Longrightarrow> \<exists>m. (d, m) \<in> set xs \<and> init_of env m = Some f"
  by (induction xs) (auto simp: loaded_inits_def split: option.splits)

lemma validate_loop_returns:
  "JNull \<notin> snd ` set xs \<Longrightarrow> \<exists>acc' s'. validate_loop env xs acc s = (Returned acc', s')"
proof (induction xs arbitrary: acc s)
  case Nil
  then show ?case by simp
next
  case (Cons x xs)
  obtain d m where x: "x = (d, m)" by (cases x)
  have "m \<noteq> JNull" and "JNull \<notin> snd ` set xs" using Cons.prems by (auto simp: x)
  then show ?case using Cons.IH by (simp add: x validate_eq)
qed

lemma load_loop_returns:
  "\<forall>(d, m) \<in> set xs. valid_manifest env d m \<and> import_settles env m \<Longrightarrow>
   \<exists>acc' s'. load_loop env xs acc s = (Returned acc', s')"
proof (induction xs arbitrary: acc s)
  case Nil
  then show ?case by simp
next
  case (Cons x xs)
  obtain d m where x: "x = (d, m)" by (cases x)
  have v: "valid_manifest env d m" and i: "import_settles env m"
    and rest: "\<forall>(d, m) \<in> set xs. valid_manifest env d m \<and> import_settles env m"
    using Cons.prems by (auto simp: x)
  show ?case using Cons.IH[OF rest] i by (simp add: x load_eq[OF v])
qed

lemma init_loop_returns:
  "InitNeverSettles \<notin> snd ` set xs \<Longrightarrow> \<exists>s'. init_loop env xs s = (Returned (), s')"
proof (induction xs arbitrary: s)
  case Nil
  then show ?case by simp
next
  case (Cons x xs)
  obtain d f where x: "x = (d, f)" by (cases x)
  have "f \<noteq> InitNeverSettles" and "InitNeverSettles \<notin> snd ` set xs"
    using Cons.prems by (auto simp: x)
  then show ?case using Cons.IH by (simp add: x initialize_eq)
qed

lemma setup_returns:
  assumes rd: "readdir env = Inr entries"
    and dist: "distinct (map fst entries)"
    and settle: "\<forall>d \<in> set (directories entries). settles env d"
  shows "fst (setup_modules env initial_state) = Returned ()"
proof -
  define dirs where "dirs = directories entries"
  define s0 where "s0 = initial_state\<lparr>isSetupInProgress := True\<rparr>"
  define out where "out = discovered_manifests env dirs"
  have ddirs: "distinct dirs" using dist by (simp add: dirs_def distinct_directories)
  obtain s1 where disc: "discover env s0 = (Returned out, s1)"
    using discover_Returned[OF rd, of s0] ddirs by (simp add: dirs_def out_def)
  have dout: "distinct (map fst out)" using ddirs by (simp add: out_def distinct_discovered)
  have out_settles: "settles env d \<and> readManifest env d = Inr m" if "(d, m) \<in> set out" for d m
    using in_discovered[of d m env dirs] that settle by (simp add: out_def dirs_def)
  have "JNull \<notin> snd ` set out"
  proof
    assume "JNull \<in> snd ` set out"
    then obtain d where "(d, JNull) \<in> set out" by force
    from out_settles[OF this] show False by (auto simp: settles_def)
  qed
  from validate_loop_returns[OF this] obtain mm s2 where
    v: "validate_loop env out [] s1 = (Returned mm, s2)" by blast
  have mm: "mm = filter (\<lambda>(d, m). valid_manifest env d m) out"
    using validate_loop_Returned[OF v dout] by simp
  have dmm: "distinct (map fst mm)" using dout by (simp add: mm distinct_map_filter)
  have mm_ok: "valid_manifest env d m \<and> import_settles env m \<and> init_of env m \<noteq> Some InitNeverSettles"
    if "(d, m) \<in> set mm" for d m
  proof -
    have "(d, m) \<in> set out" and valid: "valid_manifest env d m" using that by (auto simp: mm)
    from out_settles[OF this(1)] valid show ?thesis by (auto simp: settles_def)
  qed
  then have "\<forall>(d, m) \<in> set mm. valid_manifest env d m \<and> import_settles env m" by auto
  from load_loop_returns[OF this] obtain mi s3 where
    l: "load_loop env mm [] s2 = (Returned mi, s3)" by blast
  have vmm: "\<forall>(d, m) \<in> set mm. valid_manifest env d m" using mm_ok by auto
  have mi: "mi = loaded_inits env mm"
    using load_loop_Returned[OF l dmm _ vmm] by (simp add: loaded_inits_def)
  have "InitNeverSettles \<notin> snd ` set mi"
  proof
    assume "InitNeverSettles \<in> snd ` set mi"
    then obtain d where "(d, InitNeverSettles) \<in> set mi" by force
    then obtain m where "(d, m) \<in> set mm" "init_of env m = Some InitNeverSettles"
      using in_loaded_inits[of d InitNeverSettles env mm] by (auto simp: mi)
    with mm_ok show False by blast
  qed
  from init_loop_returns[OF this] obtain s4 where
    i: "init_loop env mi s3 = (Returned (), s4)" by blast
  show ?thesis
    using disc v l i by (simp add: setup_modules_def initial_state_def s0_def Let_def)
qed

subsection \<open>When a run raises\<close>

lemma discover_Raised: "fst (discover env s) = Raised e \<Longrightarrow> readdir env = Inl e"
  by (auto simp: discover_def split: sum.splits prod.splits)

lemma validate_loop_Raised:
  "fst (validate_loop env xs acc s) = Raised e \<Longrightarrow> JNull \<in> snd ` set xs"
proof (induction xs arbitrary: acc s)
  case Nil
  then show ?case by simp
next
  case (Cons x xs)
  obtain d m where x: "x = (d, m)" by (cases x)
  show ?case
  proof (cases "m = JNull")
    case True
    then show ?thesis by (simp add: x)
  next
    case False
    then have "JNull \<in> snd ` set xs"
      using Cons.prems Cons.IH by (auto simp: x validate_eq split: if_splits)
    then show ?thesis by simp
  qed
qed

lemma load_loop_not_Raised:
  "list_all (validated_ok env) xs \<Longrightarrow> fst (load_loop env xs acc s) \<noteq> Raised e"
proof (induction xs arbitrary: acc s)
  case Nil
  then show ?case by simp
next
  case (Cons x xs)
  obtain d m where x: "x = (d, m)" by (cases x)
  have v: "valid_manifest env d m" using Cons.prems by (simp add: x validated_ok_def)
  have rest: "list_all (validated_ok env) xs" using Cons.prems by simp
  show ?case using Cons.IH[OF rest] by (simp add: x load_eq[OF v])
qed

lemma init_loop_not_Raised: "fst (init_loop env xs s) \<noteq> Raised e"
proof (induction xs arbitrary: s)
  case Nil
  then show ?case by simp
next
  case (Cons x xs)
  obtain d f where x: "x = (d, f)" by (cases x)
  show ?case using Cons.IH by (simp add: x initialize_eq)
qed

lemma setup_Raised:
  assumes raised: "fst (setup_modules env initial_state) = Raised e"
  shows "readdir env = Inl e \<or> (\<exists>d. readManifest env d = Inr JNull)"
proof -
  define s0 where "s0 = initial_state\<lparr>isSetupInProgress := True\<rparr>"
  have ok0: "registry_ok env s0" by (simp add: s0_def registry_ok_initial)
  obtain c1 s1 where d: "discover env s0 = (c1, s1)" by (cases "discover env s0")
  have est1: "establishes (registry_ok env) (list_all (discovered_ok env)) (c1, s1)"
    using discover_establishes[OF ok0] by (simp add: d)
  show ?thesis
  proof (cases c1)
    case (Raised e')
    then have "e' = e"
      using raised d by (simp add: setup_modules_def initial_state_def s0_def Let_def)
    then show ?thesis using discover_Raised[of env s0 e'] d Raised by simp
  next
    case Pending
    then show ?thesis
      using raised d by (simp add: setup_modules_def initial_state_def s0_def Let_def)
  next
    case (Returned out)
    have ok1: "registry_ok env s1" and outs: "list_all (discovered_ok env) out"
      using est1 Returned by (simp_all add: establishes_def)
    obtain c2 s2 where v: "validate_loop env out [] s1 = (c2, s2)"
      by (cases "validate_loop env out [] s1")
    have est2: "establishes (registry_ok env) (list_all (validated_ok env)) (c2, s2)"
      using validate_loop_establishes[where P = "discovered_ok env" and Q = "validated_ok env"
          and I = "registry_ok env", OF validate_establishes ok1 outs, of "[]"]
      by (simp add: v)
    show ?thesis
    proof (cases c2)
      case (Raised e')
      then have "JNull \<in> snd ` set out" using validate_loop_Raised[of env out "[]" s1 e'] v by simp
      then obtain dir where "(dir, JNull) \<in> set out" by force
      then have "readManifest env dir = Inr JNull"
        using outs by (auto simp: list_all_iff discovered_ok_def)
      then show ?thesis by blast
    next
      case Pending
      then show ?thesis
        using raised d v \<open>c1 = Returned out\<close>
        by (simp add: setup_modules_def initial_state_def s0_def Let_def)
    next
      case (Returned mm)
      have mms: "list_all (validated_ok env) mm"
        using est2 Returned by (simp add: establishes_def)
      obtain c3 s3 where l: "load_loop env mm [] s2 = (c3, s3)"
        by (cases "load_loop env mm [] s2")
      have c3: "c3 \<noteq> Raised e" using load_loop_not_Raised[OF mms, of "[]" s2 e] l by simp
      have chain: "setup_modules env initial_state =
          await_then (c3, s3) (\<lambda>moduleInits s3.
            await_then (init_loop env moduleInits s3) (\<lambda>u s4.
              (Returned (),
               s4\<lparr>setupTime := Date_now env SetupEnd - Date_now env SetupStart,
                  isSetupInProgress := False, isSetupComplete := True\<rparr>)))"
        using d v l \<open>c1 = Returned out\<close> Returned
        by (simp add: setup_modules_def initial_state_def s0_def Let_def)
      show ?thesis
      proof (cases c3)
        case (Returned mi)
        obtain c4 s4 where i: "init_loop env mi s3 = (c4, s4)" by (cases "init_loop env mi s3")
        have "c4 \<noteq> Raised e" using init_loop_not_Raised[of env mi s3 e] i by simp
        then show ?thesis using raised chain Returned i by (cases c4) simp_all
      qed (use raised chain c3 in simp_all)
    qed
  qed
qed

subsection \<open>Runs over the concrete environments\<close>

lemmas registry_simps = setModuleInfo_def spread_def or_else_def no_fields_def

lemma env_single_sel [simp]:
  "readdir env_single = Inr [(lit ''a'', True)]"
  "readFile env_single dir = Inr (lit ''manifest of a'')"
  "JSON_parse env_single raw = Inr (JObj False [(lit ''name'', JStr (lit ''a'')), (lit ''entry'', JStr (lit ''index.ts''))])"
  "existsSync env_single dir entry = True"
  "importModule env_single name entry = ImportOk (InitFunction InitReturns)"
  "Date_now env_single SetupStart = 1000"
  "Date_now env_single (InitStart n) = 1010"
  "Date_now env_single (InitEnd n) = 1013"
  "Date_now env_single SetupEnd = 1020"
  by (simp_all add: env_single_def)

lemma env_null_sel [simp]:
  "readdir env_null = Inr [(lit ''a'', True)]"
  "readFile env_null dir = Inr (lit ''null'')"
  "JSON_parse env_null (lit ''null'') = Inr JNull"
  "Date_now env_null = Date_now env_single"
  by (simp_all add: env_null_def)

lemma directories_single [simp]: "directories [(lit ''a'', True)] = [lit ''a'']"
  by (simp add: directories_def)

lemma readManifest_null [simp]: "readManifest env_null dir = Inr JNull"
  by (simp add: readManifest_def)

lemma setup_from_initial:
  "setup_modules env initial_state =
     await_then (discover env started) (\<lambda>discovered s1.
     await_then (validate_loop env discovered [] s1) (\<lambda>moduleManifests s2.
     await_then (load_loop env moduleManifests [] s2) (\<lambda>moduleInits s3.
     await_then (init_loop env moduleInits s3) (\<lambda>u s4.
       (Returned (),
        s4\<lparr>setupTime := Date_now env SetupEnd - Date_now env SetupStart,
           isSetupInProgress := False, isSetupComplete := True\<rparr>)))))"
  by (simp add: setup_modules_def initial_state_def started_def Let_def)

lemma discover_null:
  "discover env_null started =
     (Returned [(lit ''a'', JNull)],
      started\<lparr>modules := [(lit ''a'', discovery_success (lit ''a'') JNull)]\<rparr>)"
  apply (simp add: discover_def)
  apply (simp add: registry_simps started_def discovery_success_def)
  done

lemma setup_null:
  "setup_modules env_null initial_state =
     (Raised (ErrorObj (lit ''TypeError'') (lit ''Cannot destructure property name of null'')),
      started\<lparr>modules := [(lit ''a'', discovery_success (lit ''a'') JNull)]\<rparr>)"
  by (simp add: setup_from_initial discover_null validate_null)

lemma setup_nodir:
  "setup_modules env_nodir initial_state =
     (Raised (ErrorObj (lit ''Error'') (lit ''ENOENT: no such file or directory'')), started)"
  by (simp add: setup_from_initial discover_def env_nodir_def)

lemma env_hang_sel [simp]:
  "readdir env_hang = Inr [(lit ''a'', True)]"
  "readFile env_hang dir = Inr (lit ''manifest of a'')"
  "JSON_parse env_hang raw = Inr (JObj False [(lit ''name'', JStr (lit ''a'')), (lit ''entry'', JStr (lit ''index.ts''))])"
  "existsSync env_hang dir entry = True"
  "importModule env_hang name entry = ImportOk (InitFunction InitNeverSettles)"
  "Date_now env_hang = Date_now env_single"
  by (simp_all add: env_hang_def)

lemma readManifest_hang [simp]: "readManifest env_hang dir = Inr manifest_a"
  by (simp add: readManifest_def manifest_a_def)

lemma valid_manifest_a_hang [simp]: "valid_manifest env_hang (lit ''a'') manifest_a"
  by (simp add: valid_manifest_def validationError_def manifest_a_def endsWith_def)

lemma setup_hang:
  "setup_modules env_hang initial_state =
     (Pending,
      started\<lparr>modules := [(lit ''a'',
         \<lparr>mi_name = Some (lit ''a''), mi_stage = Some Loading, mi_success = Some True,
          mi_error = None, mi_manifest = Some manifest_a, mi_initTime = None\<rparr>)]\<rparr>)"
proof -
  have d: "discover env_hang started =
      (Returned [(lit ''a'', manifest_a)], started\<lparr>modules := [(lit ''a'', discovery_success (lit ''a'') manifest_a)]\<rparr>)"
    apply (simp add: discover_def)
    apply (simp add: registry_simps started_def discovery_success_def)
    done
  have nn: "manifest_a \<noteq> JNull" by (simp add: manifest_a_def)
  have v: "validate_loop env_hang [(lit ''a'', manifest_a)] []
             (started\<lparr>modules := [(lit ''a'', discovery_success (lit ''a'') manifest_a)]\<rparr>) =
      (Returned [(lit ''a'', manifest_a)],
       started\<lparr>modules := [(lit ''a'',
         \<lparr>mi_name = Some (lit ''a''), mi_stage = Some Validation, mi_success = Some True,
          mi_error = None, mi_manifest = Some manifest_a, mi_initTime = None\<rparr>)]\<rparr>)"
    apply (simp add: validate_eq[OF nn])
    apply (simp add: validation_update_def valid_manifest_a_hang[unfolded valid_manifest_def])
    apply (simp add: registry_simps started_def discovery_success_def)
    done
  have l: "load_loop env_hang [(lit ''a'', manifest_a)] []
             (started\<lparr>modules := [(lit ''a'',
         \<lparr>mi_name = Some (lit ''a''), mi_stage = Some Validation, mi_success = Some True,
          mi_error = None, mi_manifest = Some manifest_a, mi_initTime = None\<rparr>)]\<rparr>) =
      (Returned [(lit ''a'', InitNeverSettles)],
       started\<lparr>modules := [(lit ''a'',
         \<lparr>mi_name = Some (lit ''a''), mi_stage = Some Loading, mi_success = Some True,
          mi_error = None, mi_manifest = Some manifest_a, mi_initTime = None\<rparr>)]\<rparr>)"
    apply (simp add: load_eq[OF valid_manifest_a_hang] import_settles_def init_of_def load_update_def)
    apply (simp add: registry_simps started_def)
    done
  show ?thesis
    unfolding setup_from_initial d await_then_Returned v l
    by (simp add: initialize_eq)
qed

lemma env_demo_sel [simp]:
  "readdir env_demo = Inr [(lit ''b'', True), (lit ''notes.txt'', False), (lit ''a'', True), (lit ''c'', True)]"
  "readFile env_demo dir = (if dir = lit ''c'' then Inl (ErrorObj (lit ''Error'') (lit ''ENOENT'')) else Inr dir)"
  "JSON_parse env_demo raw = Inr (JObj False [(lit ''name'', JStr raw), (lit ''entry'', JStr (lit ''index.ts''))])"
  "existsSync env_demo dir entry = True"
  "importModule env_demo name entry =
     ImportOk (InitFunction (if name = lit ''a'' then InitReturns else InitThrows (ErrorObj (lit ''Error'') (lit ''boom''))))"
  "Date_now env_demo SetupStart = 1000"
  "Date_now env_demo (InitStart n) = 1010"
  "Date_now env_demo (InitEnd n) = 1013"
  "Date_now env_demo SetupEnd = 1020"
  by (simp_all add: env_demo_def)

lemma directories_demo [simp]:
  "directories [(lit ''b'', True), (lit ''notes.txt'', False), (lit ''a'', True), (lit ''c'', True)] = [lit ''a'', lit ''b'', lit ''c'']"
  by (simp add: directories_def)

lemma readManifest_demo:
  "readManifest env_demo d =
     (if d = lit ''c'' then Inl (ErrorObj (lit ''Error'') (lit ''ENOENT'')) else Inr (manifest_of d))"
  by (simp add: readManifest_def manifest_of_def)

lemma manifest_of_simps [simp]:
  "manifest_of d \<noteq> JNull"
  "get_prop (manifest_of d) (lit ''name'') = Some (JStr d)"
  "get_prop (manifest_of d) (lit ''entry'') = Some (JStr (lit ''index.ts''))"
  by (simp_all add: manifest_of_def)

lemma valid_demo: "d \<noteq> [] \<Longrightarrow> valid_manifest env_demo d (manifest_of d)"
  by (simp add: valid_manifest_def validationError_def endsWith_def)

lemma validation_update_demo:
  "d \<noteq> [] \<Longrightarrow> validation_update env_demo d (manifest_of d) =
     \<lparr>mi_name = None, mi_stage = Some Validation, mi_success = Some True,
      mi_error = None, mi_manifest = None, mi_initTime = None\<rparr>"
  using valid_demo[of d] by (simp add: validation_update_def valid_manifest_def)

lemma load_demo [simp]:
  "import_settles env_demo (manifest_of d)"
  "init_of env_demo (manifest_of d) =
     Some (if d = lit ''a'' then InitReturns else InitThrows (ErrorObj (lit ''Error'') (lit ''boom'')))"
  "load_update env_demo (manifest_of d) =
     \<lparr>mi_name = None, mi_stage = Some Loading, mi_success = Some True,
      mi_error = None, mi_manifest = None, mi_initTime = None\<rparr>"
  by (simp_all add: import_settles_def init_of_def load_update_def)

lemma load_demo_eq:
  "d \<noteq> [] \<Longrightarrow> load env_demo (manifest_of d) s =
     (Returned (Some (if d = lit ''a'' then InitReturns else InitThrows (ErrorObj (lit ''Error'') (lit ''boom'')))),
      setModuleInfo d
        \<lparr>mi_name = None, mi_stage = Some Loading, mi_success = Some True,
         mi_error = None, mi_manifest = None, mi_initTime = None\<rparr> s)"
  by (simp add: load_eq[OF valid_demo])

subsection \<open>Code unit order and byte order\<close>

lemma utf8_examples:
  "utf8 [0xFF5E] = [0xEF, 0xBD, 0x9E]"
  "utf8 [0xD83D, 0xDE00] = [0xF0, 0x9F, 0x98, 0x80]"
  "utf8 [0xE9] = [0xC3, 0xA9]"
  "utf8 [0x20AC] = [0xE2, 0x82, 0xAC]"
  "utf8 [0x61, 0x62] = [0x61, 0x62]"
  by (simp_all add: utf8_def utf8_encode_def is_high_surrogate_def is_low_surrogate_def)

lemma code_points_ascii: "ascii s \<Longrightarrow> code_points s = map unat s"
proof (induction s rule: code_points.induct)
  case (3 h l rest)
  have "h < 0x80" using 3(3) by (simp add: ascii_def)
  then have "\<not> is_high_surrogate h"
    by (simp add: is_high_surrogate_def word_less_nat_alt word_le_nat_alt)
  then show ?case using 3 by (simp add: ascii_def)
qed simp_all

lemma utf8_encode_ascii: "u < 0x80 \<Longrightarrow> utf8_encode (unat u) = [ucast u]" for u :: code_unit
  by (simp add: utf8_encode_def word_less_nat_alt)

lemma utf8_ascii: "ascii s \<Longrightarrow> utf8 s = map ucast s"
  by (induction s) (simp_all add: utf8_def code_points_ascii utf8_encode_ascii ascii_def)

lemma unat_ucast_ascii: "u < 0x80 \<Longrightarrow> unat (ucast u :: 8 word) = unat u" for u :: code_unit
proof -
  assume "u < 0x80"
  then have "unat u < 2 ^ LENGTH(8)" by (simp add: word_less_nat_alt)
  then show ?thesis by (simp only: unsigned_ucast_eq take_bit_nat_eq_self)
qed

lemma ucast_ascii_less_iff:
  "u < 0x80 \<Longrightarrow> v < 0x80 \<Longrightarrow> ((ucast u :: 8 word) < ucast v) = (u < v)" for u v :: code_unit
  by (simp add: word_less_nat_alt unat_ucast_ascii)

lemma ucast_ascii_eq_iff:
  "u < 0x80 \<Longrightarrow> v < 0x80 \<Longrightarrow> ((ucast u :: 8 word) = ucast v) = (u = v)" for u v :: code_unit
  by (metis unat_ucast_ascii word_unat_eq_iff)

lemma utf8_ascii_less_iff: "ascii a \<Longrightarrow> ascii b \<Longrightarrow> (utf8 a < utf8 b) = (a < b)"
proof (induction a arbitrary: b)
  case Nil
  then show ?case by (cases b) (simp_all add: utf8_ascii)
next
  case (Cons u a)
  show ?case
  proof (cases b)
    case Nil
    then show ?thesis using Cons.prems by (simp add: utf8_ascii)
  next
    case (Cons v b')
    have "ascii a" "ascii b'" "u < 0x80" "v < 0x80"
      using Cons.prems Cons by (simp_all add: ascii_def)
    then show ?thesis
      using Cons.IH[of b'] Cons Cons.prems
      by (simp add: utf8_ascii ucast_ascii_less_iff ucast_ascii_eq_iff)
  qed
qed

lemma utf8_ascii_le: "ascii a \<Longrightarrow> ascii b \<Longrightarrow> a \<le> b \<Longrightarrow> utf8 a \<le> utf8 b"
  using utf8_ascii_less_iff[of a b] by (auto simp: le_less)

lemma sorted_utf8_ascii:
  assumes "sorted names" "\<forall>d \<in> set names. ascii d"
  shows "sorted (map utf8 names)"
  using assms by (induction names) (auto intro: utf8_ascii_le)

lemma ascii_lit: "ascii (lit s) = list_all (\<lambda>c. (of_char c :: nat) < 0x80) s"
  by (induction s) (simp_all add: ascii_def lit_Cons word_less_nat_alt unat_of_char)

subsection \<open>The registry after a run\<close>

lemma registry_ok_after_setup: "registry_ok env (snd (setup_modules env initial_state))"
  by (rule setup_establishes[OF registry_ok_initial])

lemma registry_lookup:
  assumes "registry_ok env s" "(d, r) \<in> set (modules s)"
  shows "map_of (modules s) d = Some r" and "record_ok env d r"
  using assms by (auto simp: registry_ok_def list_all_iff)

lemma sorted_directories: "sorted (directories entries)"
  by (simp add: directories_def)

lemma manifest_spread: "mi_manifest (spread old u) = or_else (mi_manifest u) (mi_manifest old)"
  by (simp add: spread_def)

lemma updates_keep_manifest [simp]:
  "mi_manifest (validation_update env d m) = None"
  "mi_manifest (load_update env m) = None"
  "mi_manifest (init_update env d f) = None"
  by (simp_all add: validation_update_def load_update_def init_update_def no_fields_def Let_def
        split: option.splits import_result.splits init_export.splits init_behaviour.splits)

lemma final_info_manifest:
  "mi_manifest (final_info env d) = (case readManifest env d of Inr m \<Rightarrow> Some m | Inl e \<Rightarrow> None)"
  by (simp add: final_info_def Let_def manifest_spread or_else_def discovery_failure_def
        discovery_success_def split: sum.splits option.splits)

subsection \<open>Runs over directories listed out of order\<close>

lemma env_order_sel [simp]:
  "readdir env_order = Inr [(lit ''b'', True), (lit ''a'', True), (lit ''B'', True), (lit ''ab'', True)]"
  "readFile env_order dir = Inr dir"
  "JSON_parse env_order raw = Inr (JObj False [(lit ''name'', JStr raw), (lit ''entry'', JStr (lit ''index.ts''))])"
  "existsSync env_order dir entry = True"
  "importModule env_order name entry =
     ImportOk (InitFunction (if name = lit ''ab'' then InitThrows (ErrorObj (lit ''Error'') (lit ''boom'')) else InitReturns))"
  by (simp_all add: env_order_def)

lemma env_astral_sel [simp]:
  "readdir env_astral = Inr [([0xFF5E], True), ([0xD83D, 0xDE00], True)]"
  "readFile env_astral = readFile env_order"
  "JSON_parse env_astral = JSON_parse env_order"
  "existsSync env_astral = existsSync env_order"
  "importModule env_astral = importModule env_order"
  by (simp_all add: env_astral_def)

lemma directories_order [simp]:
  "directories [(lit ''b'', True), (lit ''a'', True), (lit ''B'', True), (lit ''ab'', True)] =
     [lit ''B'', lit ''a'', lit ''ab'', lit ''b'']"
  by (simp add: directories_def)

lemma directories_astral [simp]:
  "directories [([0xFF5E], True), ([0xD83D, 0xDE00], True)] = [[0xD83D, 0xDE00], [0xFF5E]]"
  by (simp add: directories_def)

lemma readManifest_order: "readManifest env_order d = Inr (manifest_of d)"
  by (simp add: readManifest_def manifest_of_def)

lemma valid_order: "d \<noteq> [] \<Longrightarrow> valid_manifest env_order d (manifest_of d)"
  by (simp add: valid_manifest_def validationError_def endsWith_def)

lemma load_order [simp]:
  "import_settles env_order (manifest_of d)"
  "init_of env_order (manifest_of d) =
     Some (if d = lit ''ab'' then InitThrows (ErrorObj (lit ''Error'') (lit ''boom'')) else InitReturns)"
  by (simp_all add: import_settles_def init_of_def)

lemma initializer_order:
  "d \<noteq> [] \<Longrightarrow> initializer env_order d =
     Some (if d = lit ''ab'' then InitThrows (ErrorObj (lit ''Error'') (lit ''boom'')) else InitReturns)"
  by (simp add: initializer_def readManifest_order valid_order)

lemma settles_order: "d \<noteq> [] \<Longrightarrow> settles env_order d"
  by (simp add: settles_def readManifest_order valid_order)

lemma astral_as_order:
  "initializer env_astral d = initializer env_order d"
  "settles env_astral d = settles env_order d"
  by (simp_all add: initializer_def settles_def readManifest_def valid_manifest_def
      validationError_def init_of_def import_settles_def)

lemma setup_order_returns: "fst (setup_modules env_order initial_state) = Returned ()"
  by (rule setup_returns[OF env_order_sel(1)]) (simp_all add: settles_order)

lemma setup_astral_returns: "fst (setup_modules env_astral initial_state) = Returned ()"
  by (rule setup_returns[OF env_astral_sel(1)]) (simp_all add: astral_as_order settles_order)

lemma setup_demo_final: "setup_modules env_demo initial_state = (Returned (), demo_final)"
  apply (simp add: setup_from_initial)
  apply (simp add: discover_def readManifest_demo)
  apply (simp add: registry_simps started_def)
  apply (simp add: validate_eq valid_demo validation_update_demo)
  apply (simp add: registry_simps)
  apply (simp add: load_demo_eq)
  apply (simp add: registry_simps)
  apply (simp add: initialize_eq init_update_def)
  apply (simp add: registry_simps)
  apply (simp add: demo_final_def discovery_failure_def manifest_of_def)
  done

lemma initializer_demo:
  "initializer env_demo (lit ''a'') = Some InitReturns"
  "initializer env_demo (lit ''b'') = Some (InitThrows (ErrorObj (lit ''Error'') (lit ''boom'')))"
  "initializer env_demo (lit ''c'') = None"
  by (simp_all add: initializer_def readManifest_demo valid_demo)

subsection \<open>Concrete runs\<close>

lemma env_nested_sel [simp]:
  "readdir env_nested = Inr [(lit ''a'', True)]"
  "readFile env_nested dir = Inr (lit ''manifest of a'')"
  "JSON_parse env_nested raw = Inr nested_manifest"
  "existsSync env_nested dir entry = True"
  "importModule env_nested name entry = ImportOk (InitFunction InitReturns)"
  "Date_now env_nested = Date_now env_single"
  by (simp_all add: env_nested_def)

lemma nested_manifest_simps [simp]:
  "Object_freeze nested_manifest \<noteq> JNull"
  "typeof (Object_freeze nested_manifest) = lit ''object''"
  "\<not> Array_isArray (Object_freeze nested_manifest)"
  "get_prop (Object_freeze nested_manifest) (lit ''name'') = Some (JStr (lit ''a''))"
  "get_prop (Object_freeze nested_manifest) (lit ''entry'') = Some (JStr (lit ''index.ts''))"
  "get_prop (Object_freeze nested_manifest) (lit ''meta'') = Some (JObj False [(lit ''k'', JNum 1)])"
  by (simp_all add: nested_manifest_def)

lemma readManifest_nested [simp]: "readManifest env_nested dir = Inr (Object_freeze nested_manifest)"
  by (simp add: readManifest_def Let_def)

lemma valid_nested: "valid_manifest env_nested (lit ''a'') (Object_freeze nested_manifest)"
  by (simp add: valid_manifest_def validationError_def endsWith_def)

lemma setup_nested_final: "setup_modules env_nested initial_state = (Returned (), nested_final)"
  apply (simp add: setup_from_initial)
  apply (simp add: discover_def)
  apply (simp add: registry_simps started_def)
  apply (simp add: validate_eq valid_nested validation_update_def valid_nested[unfolded valid_manifest_def, simplified])
  apply (simp add: registry_simps)
  apply (simp add: load_eq[OF valid_nested] import_settles_def init_of_def load_update_def)
  apply (simp add: registry_simps)
  apply (simp add: initialize_eq init_update_def)
  apply (simp add: registry_simps)
  apply (simp add: nested_final_def)
  done

subsection \<open>Validation of one manifest\<close>

lemma get_prop_nonnull: "get_prop manifest k = Some v \<Longrightarrow> manifest \<noteq> JNull"
  by (cases manifest) simp_all

lemma validate_records:
  assumes "manifest \<noteq> JNull"
    and "validationError env dirName (get_prop manifest (lit ''name'')) (get_prop manifest (lit ''entry'')) = Some e"
  shows "fst (validate env dirName manifest s) = Returned False"
    and "map_option mi_stage (getModuleInfo (snd (validate env dirName manifest s)) dirName) = Some (Some Validation)"
    and "map_option mi_success (getModuleInfo (snd (validate env dirName manifest s)) dirName) = Some (Some False)"
    and "map_option mi_error (getModuleInfo (snd (validate env dirName manifest s)) dirName) = Some (Some e)"
  using assms
  by (simp_all add: validate_eq valid_manifest_def validation_update_def getModuleInfo_def
        lookup_setModuleInfo spread_def or_else_def)

lemma error_names [simp]:
  "err_name (ManifestMissingFieldError m f) = lit ''ManifestMissingFieldError''"
  "err_name (ManifestNameMismatchError d n) = lit ''ManifestNameMismatchError''"
  "err_name (ManifestEntryNotFoundError m e) = lit ''ManifestEntryNotFoundError''"
  "err_name (ModuleValidationError msg m c) = lit ''ModuleValidationError''"
  "err_stage (ManifestMissingFieldError m f) = Validation"
  "err_stage (ManifestNameMismatchError d n) = Validation"
  "err_stage (ManifestEntryNotFoundError m e) = Validation"
  "err_stage (ModuleValidationError msg m c) = Validation"
  by (simp_all add: ManifestMissingFieldError_def ManifestNameMismatchError_def
        ManifestEntryNotFoundError_def ModuleValidationError_def ModuleSetupError_def)

lemma demo_final_state: "snd (setup_modules env_demo initial_state) = demo_final"
  by (simp add: setup_demo_final)

lemma demo_entries_distinct:
  "distinct (map fst [(lit ''b'', True), (lit ''notes.txt'', False), (lit ''a'', True), (lit ''c'', True)])"
  by simp

lemma lastStageAttempted_demo:
  "lastStageAttempted env_demo (lit ''a'') = Initialization"
  "lastStageAttempted env_demo (lit ''b'') = Initialization"
  "lastStageAttempted env_demo (lit ''c'') = Discovery"
  by (simp_all add: lastStageAttempted_def readManifest_demo valid_demo)

section \<open>The claims of the specification\<close>

text \<open>
  Claim C1: \<^verbatim>\<open>setup()\<close> completes without raising, whatever the modules directory holds
  and whatever manifests, entry files and initializers do.

  The code does not keep this promise of its own documentation. When a manifest file holds
  the text \<^verbatim>\<open>null\<close>, discovery lets the value through, \<^verbatim>\<open>validate\<close> destructures it
  and throws, nothing catches the \<^verbatim>\<open>TypeError\<close>, and the call rejects with the
  in-progress flag still set. When the modules directory cannot be listed, the rejection of
  \<^verbatim>\<open>readdir\<close> leaves the call the same way. These are the only two ways a run from
  the initial state raises (lemma \<open>setup_Raised\<close>), and lemma \<open>setup_returns\<close> gives
  the runs that return.
\<close>

theorem setup_raises_on_null_manifest:
  "readFile env_null (lit ''a'') = Inr (lit ''null'') \<and> JSON_parse env_null (lit ''null'') = Inr JNull \<and>
   setup_modules env_null initial_state =
     (Raised (ErrorObj (lit ''TypeError'') (lit ''Cannot destructure property name of null'')),
      started\<lparr>modules := [(lit ''a'', discovery_success (lit ''a'') JNull)]\<rparr>) \<and>
   readdir env_nodir = Inl (ErrorObj (lit ''Error'') (lit ''ENOENT: no such file or directory'')) \<and>
   setup_modules env_nodir initial_state =
     (Raised (ErrorObj (lit ''Error'') (lit ''ENOENT: no such file or directory'')), started)"
  by (simp add: setup_null setup_nodir) (simp add: env_nodir_def)

text \<open>
  Claim C2: a call of \<^verbatim>\<open>setup()\<close> after a completed run, or while a run is in progress,
  returns at once and does no stage work; the registry, the report, the load order and the
  recorded duration after two calls in sequence are those after one call.

  A call in a state with either flag set returns that state unchanged. Whatever the first
  call does (return, raise or stay pending) it leaves a flag set, so a second call, in any
  environment, changes nothing.
\<close>

theorem setup_idempotent:
  "((isSetupComplete s \<or> isSetupInProgress s) \<longrightarrow> setup_modules env s = (Returned (), s)) \<and>
   setup_modules env' (snd (setup_modules env s)) = (Returned (), snd (setup_modules env s)) \<and>
   getReport (snd (setup_modules env' (snd (setup_modules env s)))) = getReport (snd (setup_modules env s)) \<and>
   getLoadOrder (snd (setup_modules env' (snd (setup_modules env s)))) = getLoadOrder (snd (setup_modules env s))"
proof -
  have closed: "setup_modules e t = (Returned (), t)" if "isSetupComplete t \<or> isSetupInProgress t" for e t
    using that by (simp add: setup_modules_def)
  have "setup_modules env' (snd (setup_modules env s)) = (Returned (), snd (setup_modules env s))"
    using setup_closes_gate[of env s] by (intro closed) (simp add: gate_closed_def)
  then show ?thesis using closed by simp
qed

text \<open>Claim C2 at \<open>env_demo\<close>: the second call is made when the modules directory has
  disappeared, and still changes nothing.\<close>

theorem setup_idempotent_witness:
  "(isSetupComplete demo_final \<or> isSetupInProgress demo_final) \<and>
   setup_modules env_demo demo_final = (Returned (), demo_final) \<and>
   setup_modules env_nodir (snd (setup_modules env_demo initial_state)) = (Returned (), demo_final) \<and>
   getReport (snd (setup_modules env_nodir (snd (setup_modules env_demo initial_state)))) =
     getReport demo_final \<and>
   getLoadOrder (snd (setup_modules env_nodir (snd (setup_modules env_demo initial_state)))) = [lit ''a'']"
proof -
  have closed: "isSetupComplete demo_final \<or> isSetupInProgress demo_final"
    by (simp add: demo_final_def)
  from setup_idempotent[of demo_final env_demo env_demo] closed
    setup_idempotent[of initial_state env_demo env_nodir]
  show ?thesis by (simp add: demo_final_state) (simp add: getLoadOrder_def demo_final_def)
qed

text \<open>
  Claim C3 as stated: the load order log is in the byte order of the directory names. It
  is not for the two directories of \<open>env_astral\<close>: the default sort compares UTF-16 code
  units and puts U+1F600, whose first code unit is \<open>0xD83D\<close>, before U+FF5E, the code unit
  \<open>0xFF5E\<close>, and both initializers are called in that order; by their bytes U+FF5E
  (\<^verbatim>\<open>EF BD 9E\<close>) comes before U+1F600 (\<^verbatim>\<open>F0 9F 98 80\<close>).
\<close>

theorem load_order_byte_order_counterexample:
  "fst (setup_modules env_astral initial_state) = Returned () \<and>
   getLoadOrder (snd (setup_modules env_astral initial_state)) = [[0xD83D, 0xDE00], [0xFF5E]] \<and>
   map utf8 (getLoadOrder (snd (setup_modules env_astral initial_state))) =
     [[0xF0, 0x9F, 0x98, 0x80], [0xEF, 0xBD, 0x9E]] \<and>
   \<not> sorted (map utf8 (getLoadOrder (snd (setup_modules env_astral initial_state))))"
proof -
  have d: "distinct (map fst [([0xFF5E], True), ([0xD83D, 0xDE00 :: code_unit], True)])"
    by simp
  have run: "setup_modules env_astral initial_state =
      (Returned (), snd (setup_modules env_astral initial_state))"
    using setup_astral_returns by (simp add: prod_eq_iff)
  have "getLoadOrder (snd (setup_modules env_astral initial_state)) = [[0xD83D, 0xDE00], [0xFF5E]]"
    using setup_Returned(1)[OF run env_astral_sel(1) d]
    by (simp add: getLoadOrder_def init_succeeds_def astral_as_order initializer_order lit_Cons)
  then show ?thesis
    using setup_astral_returns by (simp add: utf8_examples)
qed

text \<open>
  Claim C3, amended: after \<^verbatim>\<open>setup()\<close> has returned, the load order log holds exactly the
  names of the modules whose initializer completed, in ascending order of their directory
  names compared as sequences of UTF-16 code units, the order of the default sort; a module
  whose initializer throws or rejects is not in the log. When the logged names are made of
  ASCII characters, this is also the byte order of the names.

  The names of a directory listing are distinct.
\<close>

theorem load_order_lexicographic:
  assumes "setup_modules env initial_state = (Returned u, s)"
    and "readdir env = Inr entries"
    and "distinct (map fst entries)"
  shows "getLoadOrder s = filter (init_succeeds env) (directories entries) \<and>
         sorted (getLoadOrder s) \<and>
         (\<forall>d e. initializer env d = Some (InitThrows e) \<longrightarrow> d \<notin> set (getLoadOrder s)) \<and>
         ((\<forall>d \<in> set (getLoadOrder s). ascii d) \<longrightarrow> sorted (map utf8 (getLoadOrder s)))"
proof -
  have order: "getLoadOrder s = filter (init_succeeds env) (directories entries)"
    using setup_Returned(1)[OF assms] by (simp add: getLoadOrder_def)
  have "sorted (filter (init_succeeds env) (directories entries))"
    using sorted_directories by (rule sorted_wrt_filter)
  then have sorted: "sorted (getLoadOrder s)" using order by simp
  have throws: "d \<notin> set (getLoadOrder s)" if "initializer env d = Some (InitThrows e)" for d e
    using that order by (simp add: init_succeeds_def)
  have bytes: "sorted (map utf8 (getLoadOrder s))" if "\<forall>d \<in> set (getLoadOrder s). ascii d"
    using sorted that by (rule sorted_utf8_ascii)
  show ?thesis using order sorted throws bytes by blast
qed

text \<open>Claim C3, amended, at \<open>env_order\<close>: the directories are listed as \<open>b\<close>, \<open>a\<close>, \<open>B\<close>,
  \<open>ab\<close>; the log is \<open>B\<close>, \<open>a\<close>, \<open>b\<close>, and \<open>ab\<close>, whose initializer throws, is not in it.\<close>

theorem load_order_lexicographic_witness:
  "fst (setup_modules env_order initial_state) = Returned () \<and>
   readdir env_order = Inr [(lit ''b'', True), (lit ''a'', True), (lit ''B'', True), (lit ''ab'', True)] \<and>
   distinct (map fst [(lit ''b'', True), (lit ''a'', True), (lit ''B'', True), (lit ''ab'', True)]) \<and>
   getLoadOrder (snd (setup_modules env_order initial_state)) = [lit ''B'', lit ''a'', lit ''b''] \<and>
   sorted [lit ''B'', lit ''a'', lit ''b''] \<and>
   initializer env_order (lit ''ab'') = Some (InitThrows (ErrorObj (lit ''Error'') (lit ''boom''))) \<and>
   lit ''ab'' \<notin> set (getLoadOrder (snd (setup_modules env_order initial_state))) \<and>
   ascii (lit ''B'') \<and> ascii (lit ''a'') \<and> ascii (lit ''b'') \<and>
   map utf8 [lit ''B'', lit ''a'', lit ''b''] = [[0x42], [0x61], [0x62]] \<and>
   sorted (map utf8 (getLoadOrder (snd (setup_modules env_order initial_state))))"
proof -
  have d: "distinct (map fst [(lit ''b'', True), (lit ''a'', True), (lit ''B'', True), (lit ''ab'', True)])"
    by simp
  have run: "setup_modules env_order initial_state =
      (Returned (), snd (setup_modules env_order initial_state))"
    using setup_order_returns by (simp add: prod_eq_iff)
  have a: "ascii (lit ''B'')" "ascii (lit ''a'')" "ascii (lit ''b'')"
    by (simp_all add: ascii_lit)
  have u: "map utf8 [lit ''B'', lit ''a'', lit ''b''] = [[0x42], [0x61], [0x62]]"
    by (simp add: utf8_def utf8_encode_def lit_Cons)
  from load_order_lexicographic[OF run env_order_sel(1) d]
  show ?thesis
    using setup_order_returns d a u by (simp add: initializer_order init_succeeds_def)
qed

text \<open>
  Claim C4 as stated: a manifest name that differs from the directory name always gives
  the name-mismatch failure. It does not when an earlier check fails first: the manifest
  \<^verbatim>\<open>{name: "different-name"}\<close> in directory \<^verbatim>\<open>test-module-1.5\<close> has no entry, and the
  recorded error is the missing-field error for \<^verbatim>\<open>entry\<close>. With the empty string as
  name and a good entry, in directory \<^verbatim>\<open>invalid-1\<close>, it is the missing-field error for
  \<^verbatim>\<open>name\<close>.
\<close>

theorem name_mismatch_counterexample:
  "get_prop no_entry_manifest (lit ''name'') = Some (JStr (lit ''different-name'')) \<and>
   (lit ''different-name'') \<noteq> lit ''test-module-1.5'' \<and>
   map_option mi_error
     (getModuleInfo (snd (validate env_single (lit ''test-module-1.5'') no_entry_manifest initial_state))
        (lit ''test-module-1.5''))
     = Some (Some (ManifestMissingFieldError (lit ''test-module-1.5'') (lit ''entry''))) \<and>
   err_name (ManifestMissingFieldError (lit ''test-module-1.5'') (lit ''entry'')) \<noteq>
     err_name (ManifestNameMismatchError (lit ''test-module-1.5'') (lit ''different-name'')) \<and>
   get_prop empty_name_manifest (lit ''name'') = Some (JStr []) \<and>
   [] \<noteq> lit ''invalid-1'' \<and>
   map_option mi_error
     (getModuleInfo (snd (validate env_single (lit ''invalid-1'') empty_name_manifest initial_state))
        (lit ''invalid-1''))
     = Some (Some (ManifestMissingFieldError (lit ''invalid-1'') (lit ''name''))) \<and>
   err_name (ManifestMissingFieldError (lit ''invalid-1'') (lit ''name'')) \<noteq>
     err_name (ManifestNameMismatchError (lit ''invalid-1'') [])"
proof -
  have nn: "no_entry_manifest \<noteq> JNull" by (simp add: no_entry_manifest_def)
  have e: "validationError env_single (lit ''test-module-1.5'') (get_prop no_entry_manifest (lit ''name''))
             (get_prop no_entry_manifest (lit ''entry'')) =
           Some (ManifestMissingFieldError (lit ''test-module-1.5'') (lit ''entry''))"
    by (simp add: validationError_def no_entry_manifest_def)
  have nn': "empty_name_manifest \<noteq> JNull" by (simp add: empty_name_manifest_def)
  have e': "validationError env_single (lit ''invalid-1'') (get_prop empty_name_manifest (lit ''name''))
             (get_prop empty_name_manifest (lit ''entry'')) =
           Some (ManifestMissingFieldError (lit ''invalid-1'') (lit ''name''))"
    by (simp add: validationError_def empty_name_manifest_def)
  show ?thesis
    using validate_records(4)[OF nn e, of initial_state] validate_records(4)[OF nn' e', of initial_state]
    by (simp add: no_entry_manifest_def empty_name_manifest_def)
qed

text \<open>
  Claim C4, amended: for all strings \<open>name \<noteq> dirName\<close>, validating a manifest object whose
  name field is \<open>name\<close> against directory \<open>dirName\<close> returns false and records a validation
  failure. The failure is the name mismatch when \<open>name\<close> is not empty and the entry field is
  a non-empty string; otherwise it is the missing-field error of the check that comes
  first (for \<^verbatim>\<open>name\<close> when the name is empty, else for \<^verbatim>\<open>entry\<close>).
\<close>

theorem name_mismatch_validation:
  assumes "get_prop manifest (lit ''name'') = Some (JStr name)" and "name \<noteq> dirName"
  shows "fst (validate env dirName manifest s) = Returned False \<and>
         map_option mi_stage (getModuleInfo (snd (validate env dirName manifest s)) dirName)
           = Some (Some Validation) \<and>
         map_option mi_success (getModuleInfo (snd (validate env dirName manifest s)) dirName)
           = Some (Some False) \<and>
         map_option mi_error (getModuleInfo (snd (validate env dirName manifest s)) dirName)
           = Some (Some
               (if name = [] then ManifestMissingFieldError dirName (lit ''name'')
                else if falsy (get_prop manifest (lit ''entry'')) \<or>
                        typeof_opt (get_prop manifest (lit ''entry'')) \<noteq> lit ''string''
                then ManifestMissingFieldError dirName (lit ''entry'')
                else ManifestNameMismatchError dirName name))"
proof -
  have nn: "manifest \<noteq> JNull" using assms(1) by (rule get_prop_nonnull)
  have e: "validationError env dirName (get_prop manifest (lit ''name'')) (get_prop manifest (lit ''entry'')) =
      Some (if name = [] then ManifestMissingFieldError dirName (lit ''name'')
            else if falsy (get_prop manifest (lit ''entry'')) \<or>
                    typeof_opt (get_prop manifest (lit ''entry'')) \<noteq> lit ''string''
            then ManifestMissingFieldError dirName (lit ''entry'')
            else ManifestNameMismatchError dirName name)"
    using assms by (simp add: validationError_def)
  show ?thesis
    using validate_records[OF nn e] by simp
qed

text \<open>Claim C4, amended, at the manifest \<^verbatim>\<open>{name: "different-name", entry: "index.ts"}\<close>
  in directory \<^verbatim>\<open>name-mismatch\<close>.\<close>

theorem name_mismatch_validation_witness:
  "get_prop mismatch_manifest (lit ''name'') = Some (JStr (lit ''different-name'')) \<and>
   (lit ''different-name'') \<noteq> lit ''name-mismatch'' \<and>
   fst (validate env_single (lit ''name-mismatch'') mismatch_manifest initial_state) = Returned False \<and>
   map_option mi_error
     (getModuleInfo (snd (validate env_single (lit ''name-mismatch'') mismatch_manifest initial_state))
        (lit ''name-mismatch''))
     = Some (Some (ManifestNameMismatchError (lit ''name-mismatch'') (lit ''different-name'')))"
proof -
  have n: "get_prop mismatch_manifest (lit ''name'') = Some (JStr (lit ''different-name''))"
    by (simp add: mismatch_manifest_def)
  have d: "(lit ''different-name'') \<noteq> lit ''name-mismatch''" by simp
  have e: "get_prop mismatch_manifest (lit ''entry'') = Some (JStr (lit ''index.ts''))"
    by (simp add: mismatch_manifest_def)
  from name_mismatch_validation[OF n d, where env = env_single and s = initial_state]
  show ?thesis using n d by (simp add: e)
qed




text \<open>
  Claim C6: discovery requires the parsed manifest to be a non-array object, and records a
  discovery failure for every parsed value that is not one.

  The check of the code is \<^verbatim>\<open>typeof manifest !== "object" || Array.isArray(manifest)\<close>,
  and \<^verbatim>\<open>typeof null\<close> is \<^verbatim>\<open>"object"\<close>: a manifest file holding \<^verbatim>\<open>null\<close> is
  discovered, recorded as a success with the manifest \<^verbatim>\<open>null\<close>, and handed on to
  validation.
\<close>

theorem discover_accepts_null_manifest:
  "readFile env_null (lit ''a'') = Inr (lit ''null'') \<and> JSON_parse env_null (lit ''null'') = Inr JNull \<and>
   typeof JNull = lit ''object'' \<and> \<not> Array_isArray JNull \<and>
   readManifest env_null (lit ''a'') = Inr JNull \<and>
   discover env_null started =
     (Returned [(lit ''a'', JNull)], started\<lparr>modules := [(lit ''a'', discovery_success (lit ''a'') JNull)]\<rparr>) \<and>
   mi_success (discovery_success (lit ''a'') JNull) = Some True"
  by (simp add: discover_null discovery_success_def)

text \<open>Claim C6 at \<open>env_null\<close>, read off the registry: the record of \<open>a\<close> is a discovery
  success.\<close>

theorem discover_accepts_null_manifest_witness:
  "typeof JNull = lit ''object'' \<and> \<not> Array_isArray JNull \<and>
   fst (discover env_null started) = Returned [(lit ''a'', JNull)] \<and>
   map_option mi_success (getModuleInfo (snd (discover env_null started)) (lit ''a'')) = Some (Some True) \<and>
   map_option mi_stage (getModuleInfo (snd (discover env_null started)) (lit ''a'')) = Some (Some Discovery)"
  using discover_accepts_null_manifest
  by (simp add: getModuleInfo_def started_def discovery_success_def)

text \<open>
  Claim C7 as stated: at every point during and after a run, the stage of a module's
  record is the last stage attempted for it. A stage writes its record when its outcome is
  known, not when it starts: while the initializer of \<open>a\<close> in \<open>env_hang\<close> has not settled,
  which is forever, the record of \<open>a\<close> still says loading.
\<close>

theorem registry_records_counterexample:
  "fst (setup_modules env_hang initial_state) = Pending \<and>
   map_option mi_stage (getModuleInfo (snd (setup_modules env_hang initial_state)) (lit ''a''))
     = Some (Some Loading) \<and>
   initializer env_hang (lit ''a'') = Some InitNeverSettles \<and>
   lastStageAttempted env_hang (lit ''a'') = Initialization"
  by (simp add: setup_hang getModuleInfo_def started_def lastStageAttempted_def initializer_def
        init_of_def)

text \<open>
  Claim C7, amended: in the state that a run leaves, whether it returned, raised or is
  still pending, the registry holds at most one record for a module, and a success record
  at a stage implies that this stage and all earlier ones succeeded for that module. After
  a run that returned, the stage of every record is the last stage attempted for its
  module.
\<close>

theorem registry_records:
  "distinct (map fst (modules (snd (setup_modules env initial_state)))) \<and>
   (\<forall>(d, r) \<in> set (modules (snd (setup_modules env initial_state))). \<forall>st st'.
       mi_success r = Some True \<and> mi_stage r = Some st \<and> stage_index st' \<le> stage_index st
         \<longrightarrow> stage_succeeds env d st') \<and>
   (\<forall>u s entries.
       setup_modules env initial_state = (Returned u, s) \<and> readdir env = Inr entries \<and>
       distinct (map fst entries) \<longrightarrow>
         (\<forall>(d, r) \<in> set (modules s). mi_stage r = Some (lastStageAttempted env d)))"
proof (intro conjI allI impI)
  let ?s = "snd (setup_modules env initial_state)"
  have ok: "registry_ok env ?s" by (rule registry_ok_after_setup)
  then show "distinct (map fst (modules ?s))" by (simp add: registry_ok_def)
  show "\<forall>(d, r) \<in> set (modules ?s). \<forall>st st'.
       mi_success r = Some True \<and> mi_stage r = Some st \<and> stage_index st' \<le> stage_index st
         \<longrightarrow> stage_succeeds env d st'"
  proof (clarify)
    fix d r st st'
    assume in_reg: "(d, r) \<in> set (modules ?s)" and "mi_success r = Some True"
      "mi_stage r = Some st" "stage_index st' \<le> stage_index st"
    then have "stage_succeeds env d st"
      using registry_lookup(2)[OF ok in_reg] by (simp add: record_ok_def)
    then show "stage_succeeds env d st'"
      using \<open>stage_index st' \<le> stage_index st\<close> by (rule stage_succeeds_mono)
  qed
next
  fix u s entries
  assume a: "setup_modules env initial_state = (Returned u, s) \<and> readdir env = Inr entries \<and>
       distinct (map fst entries)"
  then have run: "setup_modules env initial_state = (Returned u, s)"
    and rd: "readdir env = Inr entries" and dist: "distinct (map fst entries)" by simp_all
  note R = setup_Returned[OF run rd dist]
  have ok: "registry_ok env s" using registry_ok_after_setup[of env] run by simp
  show "\<forall>(d, r) \<in> set (modules s). mi_stage r = Some (lastStageAttempted env d)"
  proof (clarify)
    fix d r
    assume "(d, r) \<in> set (modules s)"
    then have "map_of (modules s) d = Some r" by (rule registry_lookup(1)[OF ok])
    then have d: "d \<in> set (directories entries)" and r: "r = final_info env d"
      using R(2)[of d] by (auto split: if_splits)
    show "mi_stage r = Some (lastStageAttempted env d)"
      using final_info_stage[OF R(6)[OF d]] by (simp add: r)
  qed
qed

text \<open>Claim C7, amended, at \<open>env_demo\<close>.\<close>

theorem registry_records_witness:
  "setup_modules env_demo initial_state = (Returned (), demo_final) \<and>
   readdir env_demo = Inr [(lit ''b'', True), (lit ''notes.txt'', False), (lit ''a'', True), (lit ''c'', True)] \<and>
   distinct (map fst [(lit ''b'', True), (lit ''notes.txt'', False), (lit ''a'', True), (lit ''c'', True)]) \<and>
   distinct (map fst (modules demo_final)) \<and>
   map_option mi_success (getModuleInfo demo_final (lit ''a'')) = Some (Some True) \<and>
   map_option mi_stage (getModuleInfo demo_final (lit ''a'')) = Some (Some Initialization) \<and>
   stage_index Validation \<le> stage_index Initialization \<and>
   stage_succeeds env_demo (lit ''a'') Validation \<and>
   map (\<lambda>(d, r). (d, mi_stage r)) (modules demo_final) =
     [(lit ''c'', Some Discovery), (lit ''a'', Some Initialization), (lit ''b'', Some Initialization)] \<and>
   map (lastStageAttempted env_demo) [lit ''c'', lit ''a'', lit ''b''] = [Discovery, Initialization, Initialization]"
proof -
  from registry_records[of env_demo]
  have "distinct (map fst (modules demo_final))"
    and "\<forall>(d, r) \<in> set (modules demo_final). \<forall>st st'.
       mi_success r = Some True \<and> mi_stage r = Some st \<and> stage_index st' \<le> stage_index st
         \<longrightarrow> stage_succeeds env_demo d st'"
    and "\<forall>(d, r) \<in> set (modules demo_final). mi_stage r = Some (lastStageAttempted env_demo d)"
    using setup_demo_final demo_entries_distinct by (simp_all add: demo_final_state)
  then show ?thesis
    using setup_demo_final
    by (simp add: lastStageAttempted_demo)
       (simp add: demo_final_def getModuleInfo_def readManifest_demo valid_demo
          discovery_failure_def lastStageAttempted_demo)
qed

text \<open>
  Claim C8: the counts of \<^verbatim>\<open>getReport()\<close> are cumulative. \<^verbatim>\<open>validated\<close> counts the
  records at validation success or at a later stage, \<^verbatim>\<open>loaded\<close> the records at loading
  success or at the initialization stage with either outcome, \<^verbatim>\<open>initialized\<close> the
  records at initialization success, and \<^verbatim>\<open>failed\<close> the records whose success field is
  false.

  The state is the one a run from the initial state leaves, however the run ends; every
  record in it has a success field.
\<close>

theorem report_counts:
  "validated (getReport (snd (setup_modules env initial_state))) =
     length (filter (\<lambda>m. (mi_stage m = Some Validation \<and> mi_success m = Some True) \<or>
                          mi_stage m = Some Loading \<or> mi_stage m = Some Initialization)
               (map snd (modules (snd (setup_modules env initial_state))))) \<and>
   loaded (getReport (snd (setup_modules env initial_state))) =
     length (filter (\<lambda>m. (mi_stage m = Some Loading \<and> mi_success m = Some True) \<or>
                          (mi_stage m = Some Initialization \<and> mi_success m = Some True) \<or>
                          (mi_stage m = Some Initialization \<and> mi_success m = Some False))
               (map snd (modules (snd (setup_modules env initial_state))))) \<and>
   initialized (getReport (snd (setup_modules env initial_state))) =
     length (filter (\<lambda>m. mi_stage m = Some Initialization \<and> mi_success m = Some True)
               (map snd (modules (snd (setup_modules env initial_state))))) \<and>
   failed (getReport (snd (setup_modules env initial_state))) =
     length (filter (\<lambda>m. mi_success m = Some False)
               (map snd (modules (snd (setup_modules env initial_state)))))"
proof -
  let ?s = "snd (setup_modules env initial_state)"
  have ok: "registry_ok env ?s" by (rule registry_ok_after_setup)
  have defined: "mi_success m = Some True \<or> mi_success m = Some False"
    if mem: "m \<in> set (map snd (modules ?s))" for m
  proof -
    obtain d where "(d, m) \<in> set (modules ?s)" using mem by force
    from registry_lookup(2)[OF ok this] show ?thesis by (auto simp: record_ok_def)
  qed
  have l: "filter (\<lambda>m. (mi_stage m = Some Loading \<and> is_true (mi_success m)) \<or>
             mi_stage m = Some Initialization) (map snd (modules ?s)) =
        filter (\<lambda>m. (mi_stage m = Some Loading \<and> mi_success m = Some True) \<or>
                          (mi_stage m = Some Initialization \<and> mi_success m = Some True) \<or>
                          (mi_stage m = Some Initialization \<and> mi_success m = Some False))
               (map snd (modules ?s))"
    by (rule filter_cong[OF refl]) (use defined in \<open>auto simp: is_true_def\<close>)
  have f: "filter (\<lambda>m. \<not> is_true (mi_success m)) (map snd (modules ?s)) =
        filter (\<lambda>m. mi_success m = Some False) (map snd (modules ?s))"
    by (rule filter_cong[OF refl]) (use defined in \<open>auto simp: is_true_def\<close>)
  show ?thesis
    unfolding getReport_def Let_def by (simp add: l f) (simp add: is_true_def)
qed

text \<open>Claim C8 at \<open>env_demo\<close>: three directories, two validated and loaded, one initialized,
  two failed.\<close>

theorem report_counts_witness:
  "snd (setup_modules env_demo initial_state) = demo_final \<and>
   discovered (getReport demo_final) = 3 \<and>
   validated (getReport demo_final) = 2 \<and>
   loaded (getReport demo_final) = 2 \<and>
   initialized (getReport demo_final) = 1 \<and>
   failed (getReport demo_final) = 2 \<and>
   length (filter (\<lambda>m. mi_success m = Some False) (map snd (modules demo_final))) = 2"
proof -
  from report_counts[of env_demo]
  show ?thesis
    by (simp add: demo_final_state)
       (simp add: demo_final_def getReport_def is_true_def discovery_failure_def)
qed

text \<open>
  Claim C9: after \<^verbatim>\<open>setup()\<close> has returned, every record with success true is at the
  initialization stage; \<^verbatim>\<open>isModuleSetUp(name)\<close> is true exactly for the names in
  \<^verbatim>\<open>getLoadOrder()\<close>, and false for a name that was never discovered.
\<close>

theorem success_means_initialized:
  assumes "setup_modules env initial_state = (Returned u, s)"
    and "readdir env = Inr entries"
    and "distinct (map fst entries)"
  shows "(\<forall>(d, r) \<in> set (modules s). mi_success r = Some True \<longrightarrow> mi_stage r = Some Initialization) \<and>
         (\<forall>name. isModuleSetUp s name = (name \<in> set (getLoadOrder s))) \<and>
         (\<forall>name. name \<notin> set (directories entries) \<longrightarrow>
            getModuleInfo s name = None \<and> \<not> isModuleSetUp s name)"
proof -
  note R = setup_Returned[OF assms]
  have ok: "registry_ok env s"
    using registry_ok_after_setup[of env] assms(1) by simp
  have rec: "mi_stage r = Some Initialization"
    if "(d, r) \<in> set (modules s)" "mi_success r = Some True" for d r
  proof -
    have "map_of (modules s) d = Some r" using registry_lookup(1)[OF ok that(1)] .
    then have d: "d \<in> set (directories entries)" and r: "r = final_info env d"
      using R(2)[of d] by (auto split: if_splits)
    have st: "settles env d" using R(6)[OF d] .
    have "init_succeeds env d" using that(2) final_info_success[OF st] by (simp add: r)
    then show ?thesis
      using final_info_stage[OF st] init_succeeds_last_stage by (simp add: r)
  qed
  have up: "isModuleSetUp s name = (name \<in> set (getLoadOrder s))" for name
  proof (cases "name \<in> set (directories entries)")
    case True
    then show ?thesis
      using R(2)[of name] R(1) final_info_success[OF R(6)[OF True]]
      by (simp add: isModuleSetUp_def getLoadOrder_def is_true_def)
  next
    case False
    then show ?thesis
      using R(2)[of name] R(1) by (simp add: isModuleSetUp_def getLoadOrder_def)
  qed
  have absent: "getModuleInfo s name = None \<and> \<not> isModuleSetUp s name"
    if "name \<notin> set (directories entries)" for name
    using R(2)[of name] that by (simp add: getModuleInfo_def isModuleSetUp_def)
  show ?thesis using rec up absent by blast
qed

text \<open>Claim C9 at \<open>env_demo\<close>.\<close>

theorem success_means_initialized_witness:
  "setup_modules env_demo initial_state = (Returned (), demo_final) \<and>
   readdir env_demo = Inr [(lit ''b'', True), (lit ''notes.txt'', False), (lit ''a'', True), (lit ''c'', True)] \<and>
   distinct (map fst [(lit ''b'', True), (lit ''notes.txt'', False), (lit ''a'', True), (lit ''c'', True)]) \<and>
   map (\<lambda>(d, r). (d, mi_success r, mi_stage r)) (modules demo_final) =
     [(lit ''c'', Some False, Some Discovery), (lit ''a'', Some True, Some Initialization),
      (lit ''b'', Some False, Some Initialization)] \<and>
   isModuleSetUp demo_final (lit ''a'') \<and> (lit ''a'') \<in> set (getLoadOrder demo_final) \<and>
   \<not> isModuleSetUp demo_final (lit ''b'') \<and> lit ''b'' \<notin> set (getLoadOrder demo_final) \<and>
   lit ''notes.txt'' \<notin> set (directories [(lit ''b'', True), (lit ''notes.txt'', False), (lit ''a'', True), (lit ''c'', True)]) \<and>
   getModuleInfo demo_final (lit ''notes.txt'') = None \<and> \<not> isModuleSetUp demo_final (lit ''notes.txt'')"
proof -
  from success_means_initialized[OF setup_demo_final env_demo_sel(1) demo_entries_distinct]
  have "(\<forall>(d, r) \<in> set (modules demo_final). mi_success r = Some True \<longrightarrow> mi_stage r = Some Initialization)"
    and "\<And>name. isModuleSetUp demo_final name = (name \<in> set (getLoadOrder demo_final))"
    and "\<And>name. name \<notin> set (directories [(lit ''b'', True), (lit ''notes.txt'', False), (lit ''a'', True), (lit ''c'', True)])
          \<Longrightarrow> getModuleInfo demo_final name = None \<and> \<not> isModuleSetUp demo_final name"
    by blast+
  then show ?thesis
    using setup_demo_final
    by (simp add: getLoadOrder_def) (simp add: demo_final_def discovery_failure_def)
qed

text \<open>
  Claim C10 as stated: every manifest reachable through \<^verbatim>\<open>getManifests()\<close> or
  \<^verbatim>\<open>getModuleInfo()\<close> is immutable to callers. \<^verbatim>\<open>Object.freeze\<close> freezes the manifest
  object and nothing below it: the object under \<^verbatim>\<open>meta\<close> in the manifest of
  \<open>env_nested\<close> is not frozen, and a caller's assignment to its property \<^verbatim>\<open>k\<close> succeeds.
\<close>

theorem manifests_frozen_counterexample:
  "getManifests (snd (setup_modules env_nested initial_state)) = [Some (Object_freeze nested_manifest)] \<and>
   Object_isFrozen (Object_freeze nested_manifest) \<and>
   \<not> immutable (Object_freeze nested_manifest) \<and>
   get_prop (Object_freeze nested_manifest) (lit ''meta'') = Some (JObj False [(lit ''k'', JNum 1)]) \<and>
   assign_prop False [(lit ''k'', JNum 1)] (lit ''k'') (JNum 2) = Some [(lit ''k'', JNum 2)]"
  by (simp add: setup_nested_final nested_final_def getManifests_def is_true_def assign_prop_def)
     (simp add: nested_manifest_def)

text \<open>
  Claim C10, amended: discovery freezes every manifest it lets through, before validation
  sees it, so every manifest reachable through \<^verbatim>\<open>getModuleInfo()\<close> or
  \<^verbatim>\<open>getManifests()\<close> is a frozen object: an assignment to one of its own properties
  throws. After a run that returned, the record of every discovered module, also of one
  that failed a later stage, still holds the manifest that discovery read. Objects and
  arrays nested in a manifest are not frozen.
\<close>

theorem manifests_frozen:
  "(\<forall>d m. readManifest env d = Inr m \<longrightarrow> Object_isFrozen m) \<and>
   (\<forall>name info m. getModuleInfo (snd (setup_modules env initial_state)) name = Some info \<and>
        mi_manifest info = Some m \<longrightarrow> Object_isFrozen m) \<and>
   (\<forall>m. Some m \<in> set (getManifests (snd (setup_modules env initial_state))) \<longrightarrow> Object_isFrozen m) \<and>
   (\<forall>f ps k v. Object_isFrozen (JObj f ps) \<longrightarrow> assign_prop f ps k v = None) \<and>
   (\<forall>u s entries.
       setup_modules env initial_state = (Returned u, s) \<and> readdir env = Inr entries \<and>
       distinct (map fst entries) \<longrightarrow>
         (\<forall>(d, r) \<in> set (modules s).
            mi_manifest r = (case readManifest env d of Inr m \<Rightarrow> Some m | Inl e \<Rightarrow> None)))"
proof (intro conjI allI impI)
  let ?s = "snd (setup_modules env initial_state)"
  have ok: "registry_ok env ?s" by (rule registry_ok_after_setup)
  have frozen: "Object_isFrozen m" if "(d, r) \<in> set (modules ?s)" "mi_manifest r = Some m" for d r m
    using registry_lookup(2)[OF ok that(1)] that(2) by (simp add: record_ok_def)
  show "Object_isFrozen m" if "readManifest env d = Inr m" for d m
    using that by (rule readManifest_frozen)
  show "Object_isFrozen m"
    if "getModuleInfo ?s name = Some info \<and> mi_manifest info = Some m" for name info m
  proof -
    have "(name, info) \<in> set (modules ?s)"
      using that by (auto simp: getModuleInfo_def dest: map_of_SomeD)
    then show ?thesis using that frozen by blast
  qed
  show "Object_isFrozen m" if "Some m \<in> set (getManifests ?s)" for m
  proof -
    have "Some m \<in> mi_manifest ` snd ` set (modules ?s)"
      using that by (auto simp: getManifests_def)
    then obtain d r where "(d, r) \<in> set (modules ?s)" "mi_manifest r = Some m"
      by force
    then show ?thesis by (rule frozen)
  qed
  show "assign_prop f ps k v = None" if "Object_isFrozen (JObj f ps)" for f ps k v
    using that by (simp add: assign_prop_def)
next
  fix u s entries
  assume a: "setup_modules env initial_state = (Returned u, s) \<and> readdir env = Inr entries \<and>
       distinct (map fst entries)"
  then have run: "setup_modules env initial_state = (Returned u, s)"
    and rd: "readdir env = Inr entries" and dist: "distinct (map fst entries)" by simp_all
  note R = setup_Returned[OF run rd dist]
  have ok: "registry_ok env s" using registry_ok_after_setup[of env] run by simp
  show "\<forall>(d, r) \<in> set (modules s).
          mi_manifest r = (case readManifest env d of Inr m \<Rightarrow> Some m | Inl e \<Rightarrow> None)"
  proof (clarify)
    fix d r
    assume "(d, r) \<in> set (modules s)"
    then have "map_of (modules s) d = Some r" by (rule registry_lookup(1)[OF ok])
    then have "r = final_info env d" using R(2)[of d] by (auto split: if_splits)
    then show "mi_manifest r = (case readManifest env d of Inr m \<Rightarrow> Some m | Inl e \<Rightarrow> None)"
      by (simp add: final_info_manifest)
  qed
qed

text \<open>Claim C10, amended, at \<open>env_demo\<close>: the record of \<open>b\<close>, whose initializer failed,
  keeps its frozen manifest.\<close>

theorem manifests_frozen_witness:
  "setup_modules env_demo initial_state = (Returned (), demo_final) \<and>
   readdir env_demo = Inr [(lit ''b'', True), (lit ''notes.txt'', False), (lit ''a'', True), (lit ''c'', True)] \<and>
   distinct (map fst [(lit ''b'', True), (lit ''notes.txt'', False), (lit ''a'', True), (lit ''c'', True)]) \<and>
   readManifest env_demo (lit ''b'') = Inr (JObj True [(lit ''name'', JStr (lit ''b'')), (lit ''entry'', JStr (lit ''index.ts''))]) \<and>
   map_option mi_success (getModuleInfo demo_final (lit ''b'')) = Some (Some False) \<and>
   map_option mi_manifest (getModuleInfo demo_final (lit ''b'')) =
     Some (Some (JObj True [(lit ''name'', JStr (lit ''b'')), (lit ''entry'', JStr (lit ''index.ts''))])) \<and>
   Object_isFrozen (JObj True [(lit ''name'', JStr (lit ''b'')), (lit ''entry'', JStr (lit ''index.ts''))]) \<and>
   getManifests demo_final = [Some (JObj True [(lit ''name'', JStr (lit ''a'')), (lit ''entry'', JStr (lit ''index.ts''))])] \<and>
   assign_prop True [(lit ''name'', JStr (lit ''a'')), (lit ''entry'', JStr (lit ''index.ts''))] (lit ''name'') (JStr (lit ''x'')) = None"
proof -
  from manifests_frozen[of env_demo]
  show ?thesis
    using setup_demo_final
    by (simp add: demo_final_state)
       (simp add: demo_final_def getModuleInfo_def getManifests_def is_true_def assign_prop_def
          discovery_failure_def readManifest_demo manifest_of_def)
qed

end
